theory Spec2Isabelle
  imports Main "HOL-Library.Sublist"
begin

section \<open>Python strings\<close>

text \<open>
  Texts are modelled as ASCII strings: one \<open>char\<close> per code point below 128.
  \<open>isspace\<close> is Python's \<^verbatim>\<open>str.isspace\<close> on that range, \<open>strip\<close> is
  \<^verbatim>\<open>str.strip()\<close>, \<open>lower\<close> is \<^verbatim>\<open>str.lower()\<close>, \<open>contains a b\<close> is
  \<^verbatim>\<open>a in b\<close>, \<open>str\<close> is \<^verbatim>\<open>str(n)\<close> for a non-negative integer.
\<close>

definition isspace :: "char \<Rightarrow> bool" where
  "isspace c = (c \<in> set [CHR 0x09, CHR 0x0A, CHR 0x0B, CHR 0x0C, CHR 0x0D,
                          CHR 0x1C, CHR 0x1D, CHR 0x1E, CHR 0x1F, CHR '' ''])"

definition strip :: "string \<Rightarrow> string" where
  "strip s = rev (dropWhile isspace (rev (dropWhile isspace s)))"

definition lower_char :: "char \<Rightarrow> char" where
  "lower_char c =
     (case map_of (zip ''ABCDEFGHIJKLMNOPQRSTUVWXYZ'' ''abcdefghijklmnopqrstuvwxyz'') c of
        Some d \<Rightarrow> d | None \<Rightarrow> c)"

definition lower :: "string \<Rightarrow> string" where
  "lower s = map lower_char s"

fun contains :: "string \<Rightarrow> string \<Rightarrow> bool" where
  "contains needle [] = (needle = [])"
| "contains needle (c # cs) = (prefix needle (c # cs) \<or> contains needle cs)"

fun str :: "nat \<Rightarrow> string" where
  "str n = (if n < 10 then [''0123456789'' ! n]
            else str (n div 10) @ [''0123456789'' ! (n mod 10)])"

declare str.simps [simp del]

text \<open>\<^verbatim>\<open>s.split(sep, 1)[1]\<close> for a separator that occurs in \<open>s\<close>: the text after its
  first occurrence.\<close>

fun after_first :: "string \<Rightarrow> string \<Rightarrow> string" where
  "after_first sep [] = []"
| "after_first sep (c # cs) =
     (if prefix sep (c # cs) then drop (length sep) (c # cs) else after_first sep cs)"

text \<open>\<^verbatim>\<open>sep.join(xs)\<close>.\<close>

fun join :: "string \<Rightarrow> string list \<Rightarrow> string" where
  "join sep [] = []"
| "join sep [x] = x"
| "join sep (x # y # ys) = x @ sep @ join sep (y # ys)"

text \<open>\<^verbatim>\<open>s.split(". ")\<close>: the pieces between the occurrences of a full stop followed by a
  space, found from the left; \<open>acc\<close> holds the current piece reversed.\<close>

fun split_dot :: "string \<Rightarrow> string \<Rightarrow> string list" where
  "split_dot acc [] = [rev acc]"
| "split_dot acc [c] = [rev (c # acc)]"
| "split_dot acc (c # d # cs) =
     (if c = CHR ''.'' \<and> d = CHR '' '' then rev acc # split_dot [] cs
      else split_dot (c # acc) (d # cs))"

text \<open>\<^verbatim>\<open>any(w in text for w in words)\<close>.\<close>

definition any_in :: "string list \<Rightarrow> string \<Rightarrow> bool" where
  "any_in ws text = list_ex (\<lambda>w. contains w text) ws"

section \<open>The system, its state and its environment\<close>

text \<open>The attributes of \<^verbatim>\<open>DriveThruSystem\<close> that are set at start-up and read by a
  session. \<open>microphone\<close>, \<open>whisper_model\<close> and \<open>ollama_client\<close> say whether the
  attribute is an object (\<open>True\<close>) or \<^verbatim>\<open>None\<close>; \<open>gpio_available\<close> is the module's
  \<^verbatim>\<open>GPIO_AVAILABLE\<close>; \<open>simple_flow\<close> and \<open>use_continuous_listening\<close> are the two
  configuration keys that \<^verbatim>\<open>process_customer\<close> reads.\<close>

record settings =
  special_offers :: "string list"
  simple_flow :: bool
  use_continuous_listening :: bool
  use_raspberry_pi :: bool
  gpio_available :: bool
  microphone :: bool
  use_whisper :: bool
  whisper_model :: bool
  use_ollama :: bool
  ollama_client :: bool

text \<open>What the speech recogniser does on one capture: \<^verbatim>\<open>recognizer.listen\<close> raises
  \<^verbatim>\<open>WaitTimeoutError\<close> (\<open>NoSpeech\<close>) or returns audio; for audio, \<open>whisper\<close> is the
  text of \<^verbatim>\<open>whisper_model.transcribe\<close> (\<open>None\<close> when it raises) and \<open>google\<close> is what
  \<^verbatim>\<open>recognize_google\<close> does.\<close>

datatype google_outcome = Recognized string | UnknownValue | RequestFailed

datatype listen_event = NoSpeech | Audio (whisper: "string option") (google: google_outcome)

datatype sr_error = WaitTimeoutError | UnknownValueError | RequestError

text \<open>What \<^verbatim>\<open>ollama_client.generate\<close> does: returns a dictionary (with the value under
  \<^verbatim>\<open>'response'\<close>, \<open>None\<close> when the key is absent), returns another object (with its
  \<^verbatim>\<open>str()\<close>), or raises.\<close>

datatype ollama_reply = ReplyDict "string option" | ReplyOther string | ReplyRaises

text \<open>The environment of a run: the \<open>n\<close>-th call of \<^verbatim>\<open>listen\<close> meets
  \<open>listen_events n\<close>; the \<open>n\<close>-th call of \<^verbatim>\<open>listen_continuous\<close> meets the captures
  \<open>continuous_events n\<close> that fit in its time window; the \<open>n\<close>-th reading of
  \<^verbatim>\<open>datetime.now()\<close> is rendered as \<open>clock n\<close>; the \<open>n\<close>-th call of
  \<^verbatim>\<open>ollama_client.generate\<close> meets \<open>ollama_replies n\<close>.\<close>

record env =
  listen_events :: "nat \<Rightarrow> listen_event"
  continuous_events :: "nat \<Rightarrow> listen_event list"
  clock :: "nat \<Rightarrow> string"
  ollama_replies :: "nat \<Rightarrow> ollama_reply"

datatype voice = Menu_voice | Order_voice

text \<open>The dictionary that the \<^verbatim>\<open>get_customer_order\<close> functions return. A key that a
  function leaves out reads as \<open>None\<close> (\<open>False\<close> for \<open>cancelled\<close>), which is what
  \<^verbatim>\<open>order_data.get(key)\<close> gives the only reader, the hand-off.\<close>

record order_data =
  full_order_text :: "string option"
  selected_offer :: "nat option"
  order_phrases :: "string list"
  car_number :: "nat option"
  order_id :: "string option"
  cancelled :: bool

text \<open>The dictionary that the hand-off returns: the short one of a cancelled order, or
  the operator's record (its \<^verbatim>\<open>status\<close> is always \<^verbatim>\<open>"ready_for_operator"\<close>).\<close>

record operator_record =
  h_customer_id :: string
  h_order_id :: string
  h_car_number :: "nat option"
  h_timestamp :: string
  h_full_order_text :: "string option"
  h_order_phrases :: "string list"
  h_selected_offer :: "nat option"
  h_offer_details :: "string option"

datatype handoff_info = HandoffCancelled string | ReadyForOperator operator_record

text \<open>The mutable attributes of the system (\<^verbatim>\<open>_car_number\<close>, \<^verbatim>\<open>current_customer\<close>,
  \<^verbatim>\<open>order_queue\<close>, \<^verbatim>\<open>running\<close>), what has been spoken so far, the customer ids
  printed so far under \<^verbatim>\<open>NEW CUSTOMER\<close> (one line per call of \<^verbatim>\<open>process_customer\<close>), and
  how much of the environment has been consumed.\<close>

record state =
  self_car_number :: nat
  self_current_customer :: "string option"
  self_order_queue :: "handoff_info list"
  self_running :: bool
  spoken :: "(voice \<times> string) list"
  new_customers :: "string list"
  listen_calls :: nat
  continuous_calls :: nat
  clock_reads :: nat
  ollama_calls :: nat

datatype error = IndexError

section \<open>Voice channel\<close>

text \<open>\<^verbatim>\<open>speak\<close> and \<^verbatim>\<open>speak_order\<close> catch every failure of the speech engine; their
  effect on a session is that the text has been said.\<close>

definition speak :: "string \<Rightarrow> state \<Rightarrow> state" where
  "speak text st = st\<lparr>spoken := spoken st @ [(Menu_voice, text)]\<rparr>"

definition speak_order :: "string \<Rightarrow> state \<Rightarrow> state" where
  "speak_order text st = st\<lparr>spoken := spoken st @ [(Order_voice, text)]\<rparr>"

text \<open>The transcription of one capture: Whisper when it is enabled and loaded, Google when
  Whisper is off or fails.\<close>

definition recognize_google :: "google_outcome \<Rightarrow> sr_error + string" where
  "recognize_google g =
     (case g of Recognized t \<Rightarrow> Inr t | UnknownValue \<Rightarrow> Inl UnknownValueError
      | RequestFailed \<Rightarrow> Inl RequestError)"

definition transcribe :: "settings \<Rightarrow> listen_event \<Rightarrow> sr_error + string" where
  "transcribe s ev =
     (case ev of
        NoSpeech \<Rightarrow> Inl WaitTimeoutError
      | Audio w g \<Rightarrow>
          (if use_whisper s \<and> whisper_model s then
             (case w of Some t \<Rightarrow> Inr (strip t) | None \<Rightarrow> recognize_google g)
           else recognize_google g))"

text \<open>\<^verbatim>\<open>listen\<close> on one event: \<^verbatim>\<open>None\<close> without a microphone and in each of the three
  \<^verbatim>\<open>except\<close> clauses.\<close>

definition listen_result :: "settings \<Rightarrow> listen_event \<Rightarrow> string option" where
  "listen_result s ev =
     (if \<not> microphone s then None
      else case transcribe s ev of
             Inr text \<Rightarrow> Some text
           | Inl WaitTimeoutError \<Rightarrow> None
           | Inl UnknownValueError \<Rightarrow> None
           | Inl RequestError \<Rightarrow> None)"

definition listen :: "settings \<Rightarrow> env \<Rightarrow> state \<Rightarrow> string option \<times> state" where
  "listen s e st =
     (listen_result s (listen_events e (listen_calls st)),
      st\<lparr>listen_calls := Suc (listen_calls st)\<rparr>)"

section \<open>Menu announcement\<close>

definition menu_choices :: nat where
  "menu_choices = 4"

definition greeting :: string where
  "greeting = ''Welcome to KFC drive thru. These are the specials of the day.''"

definition not_configured_msg :: string where
  "not_configured_msg = ''I'' @ [CHR 0x27] @ ''m sorry, but our menu system is not configured. Please tell our staff member what you'' @ [CHR 0x27] @ ''d like to order.''"

definition menu_prompt :: string where
  "menu_prompt = ''Say 1, 2, 3, or 4 for your choice. Say 0 to hear the menu again. Say 6 to cancel your order. I am listening now.''"

text \<open>\<^verbatim>\<open>announce_offers\<close> says the greeting, the first four offers (each without a leading
  "Number N: ") and the prompt, or the greeting and an apology when no offer is configured.
  The speech engine is taken to be present: the \<^verbatim>\<open>break\<close> of the loop on an engine that is
  lost and cannot be started again is outside the model, as are the pauses.\<close>

definition offer_to_speak :: "string \<Rightarrow> string" where
  "offer_to_speak offer =
     (let to_speak = strip offer in
      if prefix ''number '' (lower to_speak) \<and> contains '': '' to_speak
      then after_first '': '' to_speak else to_speak)"

definition announce_offers :: "settings \<Rightarrow> state \<Rightarrow> state" where
  "announce_offers s st =
     (let st1 = speak greeting st;
          offers_to_announce = take menu_choices (special_offers s)
      in if offers_to_announce = [] then speak not_configured_msg st1
         else speak menu_prompt
                (foldl (\<lambda>st' offer. speak (offer_to_speak offer) st') st1 offers_to_announce))"

section \<open>The simple order flow\<close>

definition number_to_word :: "nat \<Rightarrow> string" where
  "number_to_word num =
     (if num = 0 then ''zero'' else if num = 1 then ''one'' else if num = 2 then ''two''
      else if num = 3 then ''three'' else if num = 4 then ''four'' else if num = 5 then ''five''
      else if num = 6 then ''six'' else if num = 7 then ''seven'' else if num = 8 then ''eight''
      else if num = 9 then ''nine'' else if num = 10 then ''ten'' else str num)"

text \<open>\<^verbatim>\<open>str(i) in text or self._number_to_word(i) in text\<close>.\<close>

definition mentions :: "nat \<Rightarrow> string \<Rightarrow> bool" where
  "mentions i text = (contains (str i) text \<or> contains (number_to_word i) text)"

text \<open>The loop \<^verbatim>\<open>for i in range(1, n + 1)\<close> that stops at the first number mentioned.\<close>

definition find_offer :: "nat \<Rightarrow> string \<Rightarrow> nat option" where
  "find_offer n text = find (\<lambda>i. mentions i text) [1..<Suc n]"

definition max_repeats :: nat where
  "max_repeats = 3"

definition reprompt_silence :: string where
  "reprompt_silence = ''Say 1, 2, 3, 4, or 5 to order. Say 0 to repeat the menu. Say 6 to cancel. I am listening now.''"

definition reprompt_unrecognized :: string where
  "reprompt_unrecognized = ''Say 1, 2, 3, 4, or 5 for your choice. Say 0 to hear the menu again. Say 6 to cancel. I am listening now.''"

definition cancelled_order :: order_data where
  "cancelled_order =
     \<lparr>full_order_text = None, selected_offer = None, order_phrases = [],
      car_number = None, order_id = None, cancelled = True\<rparr>"

definition no_order :: order_data where
  "no_order =
     \<lparr>full_order_text = None, selected_offer = None, order_phrases = [],
      car_number = None, order_id = None, cancelled = False\<rparr>"

text \<open>The test of the repeat command on the lower-cased text.\<close>

definition is_repeat :: "string \<Rightarrow> bool" where
  "is_repeat response_lower =
     (contains (str 0) response_lower \<or> contains ''zero'' response_lower
      \<or> (contains ''repeat'' response_lower \<and> length response_lower < 15))"

text \<open>The test of the cancel command.\<close>

definition is_cancel :: "string \<Rightarrow> bool" where
  "is_cancel response_lower =
     (contains (str 6) response_lower \<or> contains ''six'' response_lower)"

text \<open>The end of a confirmed order: the counter is incremented and the confirmation
  spoken before the menu item is looked up, so both remain when the lookup raises.\<close>

definition confirm_order :: "settings \<Rightarrow> string \<Rightarrow> nat \<Rightarrow> state \<Rightarrow> (error + order_data) \<times> state" where
  "confirm_order s order_text sel st =
     (let st1 = st\<lparr>self_car_number := self_car_number st + 1\<rparr>;
          car_num = number_to_word (self_car_number st1);
          st2 = speak (''Order confirmed. Car number '' @ car_num @ ''.'') st1;
          offers = take menu_choices (special_offers s)
      in if offers \<noteq> [] \<and> \<not> sel - 1 < length offers then (Inl IndexError, st2)
         else
           (let order_display = (if offers \<noteq> [] then offers ! (sel - 1) else order_text)
            in (Inr \<lparr>full_order_text = Some order_display, selected_offer = Some sel,
                      order_phrases = [order_display],
                      car_number = Some (self_car_number st1),
                      order_id = Some (''Car '' @ str (self_car_number st1)),
                      cancelled = False\<rparr>, st2)))"

text \<open>One pass of the loop of \<^verbatim>\<open>get_customer_order_simple\<close> after its call of
  \<^verbatim>\<open>listen\<close>: \<open>None\<close> is \<^verbatim>\<open>continue\<close>, \<open>Some r\<close> is \<^verbatim>\<open>return r\<close> (or the exception).\<close>

definition simple_pass :: "settings \<Rightarrow> string option \<Rightarrow> state \<Rightarrow> (error + order_data) option \<times> state" where
  "simple_pass s response st =
     (let order_text = (case response of None \<Rightarrow> None
                        | Some r \<Rightarrow> if r = [] then None else Some (strip r))
      in case order_text of
           None \<Rightarrow> (None, speak reprompt_silence st)
         | Some ot \<Rightarrow>
             if ot = [] then (None, speak reprompt_silence st)
             else
               (let response_lower = strip (lower ot) in
                if is_repeat response_lower
                then (None, announce_offers s (speak ''Repeating the menu.'' st))
                else if is_cancel response_lower
                then (Some (Inr cancelled_order), speak ''Order cancelled.'' st)
                else
                  (case find_offer menu_choices response_lower of
                     None \<Rightarrow> (None, speak reprompt_unrecognized st)
                   | Some sel \<Rightarrow>
                       (case confirm_order s ot sel st of (r, st') \<Rightarrow> (Some r, st')))))"

text \<open>\<^verbatim>\<open>for _ in range(n)\<close> around the pass; when the range is used up the function
  returns the dictionary without an order.\<close>

fun simple_loop :: "nat \<Rightarrow> settings \<Rightarrow> env \<Rightarrow> state \<Rightarrow> (error + order_data) \<times> state" where
  "simple_loop 0 s e st = (Inr no_order, st)"
| "simple_loop (Suc n) s e st =
     (case listen s e st of
        (response, st1) \<Rightarrow>
          (case simple_pass s response st1 of
             (Some r, st2) \<Rightarrow> (r, st2)
           | (None, st2) \<Rightarrow> simple_loop n s e st2))"

definition get_customer_order_simple :: "settings \<Rightarrow> env \<Rightarrow> state \<Rightarrow> (error + order_data) \<times> state" where
  "get_customer_order_simple s e st = simple_loop (max_repeats + 1) s e st"

section \<open>The full order flows\<close>

definition done_words :: "string list" where
  "done_words = [''done'', ''that'' @ [CHR 0x27] @ ''s all'', ''that'' @ [CHR 0x27] @ ''s it'',
                 ''finished'', ''that will be all'', ''complete'']"

definition max_silence :: nat where
  "max_silence = 4"

text \<open>The loop of \<^verbatim>\<open>listen_continuous\<close> over the captures that fit in its time window
  (the wall clock that bounds the loop is part of the environment).\<close>

fun continuous_loop :: "settings \<Rightarrow> nat \<Rightarrow> string list \<Rightarrow> listen_event list \<Rightarrow> string list" where
  "continuous_loop s silence_count phrases [] = phrases"
| "continuous_loop s silence_count phrases (ev # evs) =
     (case transcribe s ev of
        Inr text \<Rightarrow>
          if any_in done_words (lower text) then phrases @ [text]
          else continuous_loop s 0 (phrases @ [text]) evs
      | Inl WaitTimeoutError \<Rightarrow>
          if silence_count + 1 \<ge> max_silence then phrases
          else continuous_loop s (silence_count + 1) phrases evs
      | Inl UnknownValueError \<Rightarrow> continuous_loop s silence_count phrases evs
      | Inl RequestError \<Rightarrow> phrases)"

definition listen_continuous :: "settings \<Rightarrow> env \<Rightarrow> state \<Rightarrow> string list \<times> state" where
  "listen_continuous s e st =
     (if \<not> microphone s then ([], st)
      else (continuous_loop s 0 [] (continuous_events e (continuous_calls st)),
            st\<lparr>continuous_calls := Suc (continuous_calls st)\<rparr>))"

text \<open>The optional post-processor. A reply that is a dictionary is read under
  \<^verbatim>\<open>'response'\<close> with default \<^verbatim>\<open>''\<close>; every exception is caught and gives the order
  text back.\<close>

definition process_order_with_ollama :: "settings \<Rightarrow> env \<Rightarrow> string \<Rightarrow> state \<Rightarrow> string \<times> state" where
  "process_order_with_ollama s e order_text st =
     (if ollama_client s then
        (let st1 = st\<lparr>ollama_calls := Suc (ollama_calls st)\<rparr> in
         case ollama_replies e (ollama_calls st) of
           ReplyRaises \<Rightarrow> (order_text, st1)
         | ReplyDict v \<Rightarrow>
             (let processed = strip (case v of None \<Rightarrow> [] | Some t \<Rightarrow> t) in
              if processed \<noteq> [] \<and> lower processed \<noteq> lower order_text
              then (processed, st1) else (order_text, st1))
         | ReplyOther t \<Rightarrow>
             (let processed = strip t in
              if processed \<noteq> [] \<and> lower processed \<noteq> lower order_text
              then (processed, st1) else (order_text, st1)))
      else (order_text, st))"

text \<open>The block of \<^verbatim>\<open>get_customer_order_continuous\<close> that calls the post-processor: only
  when it is enabled, connected and the order text is not empty; an empty result keeps the
  order text.\<close>

definition format_order :: "settings \<Rightarrow> env \<Rightarrow> string \<Rightarrow> state \<Rightarrow> string \<times> state" where
  "format_order s e full_order st =
     (if use_ollama s \<and> ollama_client s \<and> full_order \<noteq> [] then
        (case process_order_with_ollama s e full_order st of
           (processed_order, st') \<Rightarrow>
             (if processed_order \<noteq> [] then processed_order else full_order, st'))
      else (full_order, st))"

text \<open>The block of \<^verbatim>\<open>get_customer_order_continuous\<close> that reads the order back, listens
  for the customer's answer and replies to it.\<close>

definition confirm_readback :: "settings \<Rightarrow> env \<Rightarrow> string \<Rightarrow> state \<Rightarrow> state" where
  "confirm_readback s e full_order st =
     (let st3 = speak (''I captured your order. Let me repeat it back: '' @ full_order @ ''. Is that correct?'') st
      in case listen s e st3 of
        (confirmation, st4) \<Rightarrow>
          (case confirmation of
             None \<Rightarrow> st4
           | Some c \<Rightarrow>
               if c = [] then st4
               else if any_in [''no'', ''wrong'', ''change'', ''not quite''] (lower c)
               then speak ''No problem. Let me connect you with our team member who can help clarify your order.'' st4
               else speak (''Perfect! I'' @ [CHR 0x27] @ ''ve captured your order.'') st4))"

definition get_customer_order_continuous :: "settings \<Rightarrow> env \<Rightarrow> state \<Rightarrow> order_data \<times> state" where
  "get_customer_order_continuous s e st =
     (let st1 = speak (''Please tell me your complete order. You can take your time. Say '' @ [CHR 0x27] @ ''done'' @ [CHR 0x27] @ '' or '' @ [CHR 0x27] @ ''that'' @ [CHR 0x27] @ ''s all'' @ [CHR 0x27] @ '' when you'' @ [CHR 0x27] @ ''re finished.'') st
      in case listen_continuous s e st1 of
        (phrases, st2) \<Rightarrow>
          if phrases = [] then
            (\<lparr>full_order_text = None, selected_offer = None, order_phrases = [],
              car_number = None, order_id = None, cancelled = False\<rparr>,
             speak (''I didn'' @ [CHR 0x27] @ ''t catch your order. Let me connect you with our team member.'') st2)
          else
            (let full_order = join ''. '' phrases;
                 selected = find_offer (length (special_offers s)) (lower full_order);
                 st5 = confirm_readback s e full_order st2
             in case format_order s e full_order st5 of
                  (final_order, st7) \<Rightarrow>
                    (\<lparr>full_order_text = Some final_order, selected_offer = selected,
                      order_phrases = phrases, car_number = None, order_id = None,
                      cancelled = False\<rparr>, st7)))"

definition max_attempts :: nat where
  "max_attempts = 3"

definition truthy :: "string option \<Rightarrow> bool" where
  "truthy x = (case x of None \<Rightarrow> False | Some t \<Rightarrow> t \<noteq> [])"

text \<open>One pass of the loop \<^verbatim>\<open>for attempt in range(max_attempts)\<close> of
  \<^verbatim>\<open>get_customer_order\<close>; \<open>order_text\<close> and \<open>selected\<close> are the two variables the loop
  updates. The first component of the result is \<open>True\<close> when the loop goes to its next
  attempt (\<^verbatim>\<open>continue\<close>, or the end of the body) and \<open>False\<close> on \<^verbatim>\<open>break\<close>.\<close>

definition order_pass :: "nat \<Rightarrow> settings \<Rightarrow> env \<Rightarrow> string option \<Rightarrow> nat option \<Rightarrow> state
    \<Rightarrow> bool \<times> (string option \<times> nat option) \<times> state" where
  "order_pass attempt s e order_text selected st =
     (case listen s e st of
        (None, st1) \<Rightarrow>
          (True, (order_text, selected),
           if attempt < max_attempts - 1
           then speak (''I didn'' @ [CHR 0x27] @ ''t catch that. Could you please tell me your order again?'') st1
           else st1)
      | (Some response, st1) \<Rightarrow>
          (let selected1 = (case find_offer (length (special_offers s)) (lower response) of
                              Some i \<Rightarrow> Some i | None \<Rightarrow> selected)
           in if attempt < max_attempts - 1 then
                (let st2 = speak (''I heard: '' @ response @ ''. Is that correct? Say yes to confirm, or tell me if you want to add anything else.'') st1
                 in case listen s e st2 of
                   (confirmation, st3) \<Rightarrow>
                     if truthy confirmation then
                       (let conf = the confirmation; conf_lower = lower conf in
                        if any_in [''yes'', ''correct'', ''right'', ''that'' @ [CHR 0x27] @ ''s it'', ''that'' @ [CHR 0x27] @ ''s all''] conf_lower
                        then
                          (let st4 = speak (''Great! Is there anything else you'' @ [CHR 0x27] @ ''d like to add to your order?'') st3
                           in case listen s e st4 of
                             (additional, st5) \<Rightarrow>
                               if truthy additional then
                                 (if any_in [''no'', ''that'' @ [CHR 0x27] @ ''s all'', ''nothing'', ''no thanks'', ''that'' @ [CHR 0x27] @ ''s it''] (lower (the additional))
                                  then (False, (Some response, selected1), st5)
                                  else (False, (Some (response @ ''. '' @ the additional), selected1), st5))
                               else (False, (Some response, selected1), st5))
                        else if any_in [''no'', ''wrong'', ''change''] conf_lower
                        then (True, (Some response, selected1),
                              speak ''No problem. Please tell me your order again.'' st3)
                        else (False, (Some (response @ ''. '' @ conf), selected1), st3))
                     else (True, (Some response, selected1), st3))
              else (False, (Some response, selected1), st1)))"

fun order_loop :: "nat list \<Rightarrow> settings \<Rightarrow> env \<Rightarrow> string option \<Rightarrow> nat option \<Rightarrow> state
    \<Rightarrow> (string option \<times> nat option) \<times> state" where
  "order_loop [] s e order_text selected st = ((order_text, selected), st)"
| "order_loop (attempt # rest) s e order_text selected st =
     (case order_pass attempt s e order_text selected st of
        (True, (order_text', selected'), st') \<Rightarrow> order_loop rest s e order_text' selected' st'
      | (False, r, st') \<Rightarrow> (r, st'))"

definition get_customer_order :: "settings \<Rightarrow> env \<Rightarrow> state \<Rightarrow> order_data \<times> state" where
  "get_customer_order s e st =
     (case order_loop [0..<max_attempts] s e None None st of
        ((order_text, selected), st') \<Rightarrow>
          (\<lparr>full_order_text = order_text, selected_offer = selected,
            order_phrases = (if truthy order_text then split_dot [] (the order_text) else []),
            car_number = None, order_id = None, cancelled = False\<rparr>, st'))"

section \<open>Hand-off to the operator\<close>

text \<open>The entries of the operator's dictionary are evaluated in order, so the clock is read
  before \<^verbatim>\<open>self.special_offers[selected_offer - 1]\<close> can raise. The operator notification
  only prints.\<close>

definition handoff_to_operator :: "settings \<Rightarrow> env \<Rightarrow> string \<Rightarrow> order_data \<Rightarrow> state
    \<Rightarrow> (error + handoff_info) \<times> state" where
  "handoff_to_operator s e customer_id od st =
     (if cancelled od then (Inr (HandoffCancelled customer_id), st)
      else
        (let oid = (if truthy (order_id od) then the (order_id od) else customer_id);
             st1 = st\<lparr>clock_reads := Suc (clock_reads st)\<rparr>;
             sel = (case selected_offer od of None \<Rightarrow> 0 | Some i \<Rightarrow> i)
         in if sel \<noteq> 0 \<and> \<not> sel - 1 < length (special_offers s) then (Inl IndexError, st1)
            else
              (let info = ReadyForOperator
                     \<lparr>h_customer_id = customer_id, h_order_id = oid,
                      h_car_number = car_number od,
                      h_timestamp = clock e (clock_reads st),
                      h_full_order_text = full_order_text od,
                      h_order_phrases = order_phrases od,
                      h_selected_offer = selected_offer od,
                      h_offer_details = (if sel \<noteq> 0 then Some (special_offers s ! (sel - 1)) else None)\<rparr>;
                   st2 = st1\<lparr>self_order_queue := self_order_queue st1 @ [info]\<rparr>;
                   st3 = (if truthy (full_order_text od)
                          then speak ''Thank you! Your order is on the screen. Our team is preparing it. Please drive to the pick-up window to collect your order and pay.'' st2
                          else speak ''Please drive to the pick-up window. Our team will help you there.'' st2)
               in (Inr info, st3))))"

definition handoff_to_operator_simple :: "settings \<Rightarrow> env \<Rightarrow> string \<Rightarrow> order_data \<Rightarrow> state
    \<Rightarrow> (error + handoff_info) \<times> state" where
  "handoff_to_operator_simple s e customer_id od st =
     (if cancelled od then (Inr (HandoffCancelled customer_id), st)
      else
        (let text = (if truthy (full_order_text od) then the (full_order_text od)
                     else ''No order captured'')
         in handoff_to_operator s e customer_id od (speak_order (''Your order is. '' @ text) st)))"

section \<open>One customer, and the main loop\<close>

text \<open>An exception leaves \<^verbatim>\<open>process_customer\<close> before \<^verbatim>\<open>current_customer\<close> is reset.\<close>

definition process_customer :: "settings \<Rightarrow> env \<Rightarrow> state \<Rightarrow> (error + handoff_info) \<times> state" where
  "process_customer s e st =
     (let customer_id = ''CUST_'' @ clock e (clock_reads st);
          st1 = st\<lparr>clock_reads := Suc (clock_reads st),
                   self_current_customer := Some customer_id,
                   new_customers := new_customers st @ [customer_id]\<rparr>;
          st2 = announce_offers s st1
      in case (if simple_flow s then
                 (case get_customer_order_simple s e st2 of
                    (Inl err, st3) \<Rightarrow> (Inl err, st3)
                  | (Inr od, st3) \<Rightarrow> handoff_to_operator_simple s e customer_id od st3)
               else
                 (case (if use_continuous_listening s then get_customer_order_continuous s e st2
                        else get_customer_order s e st2) of
                    (od, st3) \<Rightarrow> handoff_to_operator s e customer_id od st3)) of
           (Inl err, st4) \<Rightarrow> (Inl err, st4)
         | (Inr info, st4) \<Rightarrow> (Inr info, st4\<lparr>self_current_customer := None\<rparr>))"

text \<open>\<^verbatim>\<open>GPIO.input(self.loop_pin) == GPIO.HIGH\<close> on the pin level \<open>raw\<close>; always \<open>False\<close> in
  simulation mode.\<close>

definition detect_car_approach :: "settings \<Rightarrow> bool \<Rightarrow> bool" where
  "detect_car_approach s raw = (if use_raspberry_pi s \<and> gpio_available s then raw else False)"

text \<open>The body of \<^verbatim>\<open>while self.running\<close> over the successive pin levels that the loop
  reads, with the local variable \<open>car_detected\<close>. An exception of \<^verbatim>\<open>process_customer\<close>
  ends the loop (only \<^verbatim>\<open>KeyboardInterrupt\<close> is caught).\<close>

fun run_loop :: "settings \<Rightarrow> env \<Rightarrow> bool list \<Rightarrow> bool \<Rightarrow> state \<Rightarrow> error option \<times> bool \<times> state" where
  "run_loop s e [] car_detected st = (None, car_detected, st)"
| "run_loop s e (raw # raws) car_detected st =
     (if \<not> self_running st then (None, car_detected, st)
      else if detect_car_approach s raw then
        (if \<not> car_detected then
           (case process_customer s e st of
              (Inl err, st') \<Rightarrow> (Some err, True, st')
            | (Inr info, st') \<Rightarrow> run_loop s e raws True st')
         else run_loop s e raws car_detected st)
      else run_loop s e raws False st)"

definition run :: "settings \<Rightarrow> env \<Rightarrow> bool list \<Rightarrow> state \<Rightarrow> error option \<times> bool \<times> state" where
  "run s e raws st = run_loop s e raws False (st\<lparr>self_running := True\<rparr>)"

section \<open>Auxiliary definitions for the statements\<close>

text \<open>What one call of \<^verbatim>\<open>announce_offers\<close> says.\<close>

definition menu_announcement :: "settings \<Rightarrow> (voice \<times> string) list" where
  "menu_announcement s =
     (if take menu_choices (special_offers s) = []
      then [(Menu_voice, greeting), (Menu_voice, not_configured_msg)]
      else (Menu_voice, greeting)
           # map (\<lambda>offer. (Menu_voice, offer_to_speak offer)) (take menu_choices (special_offers s))
           @ [(Menu_voice, menu_prompt)])"

text \<open>A configured system with four menu items, a microphone and Google recognition; the
  state of a freshly initialised system; environments in which the customer says the
  given texts in turn and is silent afterwards.\<close>

definition demo_settings :: settings where
  "demo_settings =
     \<lparr>special_offers = [''Number 1: Streetwise two'', ''Zinger burger'', ''Family bucket'', ''Twister wrap''],
      simple_flow = True, use_continuous_listening = True, use_raspberry_pi = True,
      gpio_available = True, microphone = True, use_whisper = False, whisper_model = False,
      use_ollama = False, ollama_client = False\<rparr>"

definition initial_state :: state where
  "initial_state =
     \<lparr>self_car_number = 0, self_current_customer = None, self_order_queue = [],
      self_running = False, spoken = [], new_customers = [], listen_calls = 0,
      continuous_calls = 0, clock_reads = 0, ollama_calls = 0\<rparr>"

definition heard :: "string option list \<Rightarrow> nat \<Rightarrow> listen_event" where
  "heard texts n =
     (if n < length texts then
        (case texts ! n of None \<Rightarrow> NoSpeech | Some t \<Rightarrow> Audio None (Recognized t))
      else NoSpeech)"

definition demo_env :: "(nat \<Rightarrow> listen_event) \<Rightarrow> env" where
  "demo_env evs = \<lparr>listen_events = evs, continuous_events = (\<lambda>n. []),
                    clock = (\<lambda>n. str n), ollama_replies = (\<lambda>n. ReplyRaises)\<rparr>"


text \<open>A step of the dialogue may speak, listen and confirm an order; it leaves the queue,
  the current customer, the list of customers and the running flag as they are.\<close>

definition dialogue_step :: "state \<Rightarrow> state \<Rightarrow> bool" where
  "dialogue_step st st' =
     (self_order_queue st' = self_order_queue st
      \<and> self_current_customer st' = self_current_customer st
      \<and> new_customers st' = new_customers st
      \<and> self_running st' = self_running st)"

text \<open>The number of arrivals in a sequence of readings of the detector: the readings at
  which a car is present and was not present at the reading before (\<open>car_detected\<close> is
  the reading before the first).\<close>

fun arrivals :: "bool \<Rightarrow> bool list \<Rightarrow> nat" where
  "arrivals car_detected [] = 0"
| "arrivals car_detected (present # rest) =
     (if present \<and> \<not> car_detected then 1 else 0) + arrivals present rest"

text \<open>A check that \<^verbatim>\<open>get_customer_order_simple\<close> makes before the check of the code
  \<open>c\<close> succeeds on the text: the repeat check before every other code, the cancel check
  and the checks of the smaller numbers before a selection.\<close>

definition earlier_check :: "nat \<Rightarrow> string \<Rightarrow> bool" where
  "earlier_check c text =
     ((c \<noteq> 0 \<and> is_repeat text)
      \<or> (c \<noteq> 0 \<and> c \<noteq> 6 \<and> (is_cancel text \<or> list_ex (\<lambda>j. mentions j text) [1..<c])))"

text \<open>A hand-off record and the outcome of a session with the order text left out (and the
  count of calls of the post-processor): what two sessions must agree on when they differ
  only in the post-processor.\<close>

definition without_text :: "handoff_info \<Rightarrow> handoff_info" where
  "without_text info =
     (case info of
        HandoffCancelled cid \<Rightarrow> HandoffCancelled cid
      | ReadyForOperator r \<Rightarrow> ReadyForOperator (r\<lparr>h_full_order_text := None\<rparr>))"

definition session_without_text :: "(error + handoff_info) \<times> state \<Rightarrow> (error + handoff_info) \<times> state" where
  "session_without_text p =
     (map_sum id without_text (fst p),
      (snd p)\<lparr>self_order_queue := map without_text (self_order_queue (snd p)),
              ollama_calls := 0\<rparr>)"

text \<open>The configured system in the continuous flow with the post-processor enabled and
  connected, and an environment in which the customer dictates an order in two phrases,
  confirms it, and the post-processor gives the reply \<open>reply\<close>.\<close>

definition continuous_settings :: settings where
  "continuous_settings =
     demo_settings\<lparr>simple_flow := False, use_ollama := True, ollama_client := True\<rparr>"

definition ordering_env :: "ollama_reply \<Rightarrow> env" where
  "ordering_env reply =
     \<lparr>listen_events = (\<lambda>n. Audio None (Recognized ''yes'')),
      continuous_events = (\<lambda>n. [Audio None (Recognized ''Two zinger burgers''), NoSpeech,
                                 Audio None (Recognized ''and a cola, done'')]),
      clock = (\<lambda>n. str n),
      ollama_replies = (\<lambda>n. reply)\<rparr>"

section \<open>Effects of the voice channel and of one pass\<close>

lemma foldl_speak:
  "foldl (\<lambda>st' offer. speak (f offer) st') st xs
     = st\<lparr>spoken := spoken st @ map (\<lambda>offer. (Menu_voice, f offer)) xs\<rparr>"
  by (induction xs arbitrary: st) (simp_all add: speak_def)

lemma announce_offers_spoken:
  "announce_offers s st = st\<lparr>spoken := spoken st @ menu_announcement s\<rparr>"
  unfolding announce_offers_def menu_announcement_def Let_def foldl_speak
  by (simp add: speak_def)

lemma strip_Nil [simp]: "strip [] = []"
  by (simp add: strip_def)

lemma lower_Nil [simp]: "lower [] = []"
  by (simp add: lower_def)

lemma find_offer_range:
  assumes "find_offer n t = Some i"
  shows "1 \<le> i \<and> i \<le> n \<and> mentions i t"
proof -
  from assms have "i \<in> set [1..<Suc n] \<and> mentions i t"
    unfolding find_offer_def find_Some_iff by (metis nth_mem)
  then show ?thesis by auto
qed

lemma confirm_order_Inr:
  assumes "confirm_order s ot sel st = (Inr od, st')"
  shows "selected_offer od = Some sel \<and> car_number od = Some (self_car_number st')
         \<and> \<not> cancelled od \<and> self_car_number st' = self_car_number st + 1
         \<and> listen_calls st' = listen_calls st \<and> self_order_queue st' = self_order_queue st"
  using assms by (auto simp: confirm_order_def Let_def speak_def split: if_splits)

lemma simple_pass_cases:
  assumes "simple_pass s response st = (res, st')"
  shows "(res = None \<and> self_car_number st' = self_car_number st)
       \<or> (res = Some (Inr cancelled_order) \<and> self_car_number st' = self_car_number st)
       \<or> (\<exists>ot sel. find_offer menu_choices (strip (lower ot)) = Some sel
              \<and> confirm_order s ot sel st = (the res, st') \<and> res \<noteq> None)"
  using assms
  by (auto simp: simple_pass_def Let_def speak_def announce_offers_spoken
           split: option.splits if_splits prod.splits)


section \<open>The dictionary of the simple flow\<close>

lemma simple_loop_result:
  assumes "simple_loop n s e st = (Inr od, st')"
  shows "(selected_offer od = None \<and> car_number od = None \<and> self_car_number st' = self_car_number st)
       \<or> (\<exists>i. selected_offer od = Some i \<and> 1 \<le> i \<and> i \<le> menu_choices
              \<and> \<not> cancelled od \<and> car_number od = Some (self_car_number st')
              \<and> self_car_number st' = self_car_number st + 1)"
  using assms
proof (induction n arbitrary: st)
  case 0
  then show ?case by (auto simp: no_order_def)
next
  case (Suc n)
  obtain response st1 where l: "listen s e st = (response, st1)" by (cases "listen s e st")
  obtain res st2 where p: "simple_pass s response st1 = (res, st2)"
    by (cases "simple_pass s response st1")
  have c1: "self_car_number st1 = self_car_number st"
    using l by (auto simp: listen_def)
  from simple_pass_cases [OF p] consider
      (cont) "res = None" "self_car_number st2 = self_car_number st1"
    | (canc) "res = Some (Inr cancelled_order)" "self_car_number st2 = self_car_number st1"
    | (conf) ot sel where "find_offer menu_choices (strip (lower ot)) = Some sel"
        "confirm_order s ot sel st1 = (the res, st2)" "res \<noteq> None"
    by blast
  then show ?case
  proof cases
    case cont
    with Suc.prems l p have "simple_loop n s e st2 = (Inr od, st')" by simp
    from Suc.IH [OF this] cont c1 show ?thesis by simp
  next
    case canc
    with Suc.prems l p have "od = cancelled_order" "st' = st2" by simp_all
    with canc c1 show ?thesis by (simp add: cancelled_order_def)
  next
    case conf
    then obtain r where r: "res = Some r" by auto
    with Suc.prems l p have "r = Inr od" "st' = st2" by simp_all
    with conf r have co: "confirm_order s ot sel st1 = (Inr od, st')" by simp
    from find_offer_range [OF conf(1)] confirm_order_Inr [OF co] c1
    show ?thesis by simp
  qed
qed

text \<open>C10: every dictionary that \<^verbatim>\<open>get_customer_order_simple\<close> returns has a selected offer
  that is \<^verbatim>\<open>None\<close> or one of 1..4; the selected offer is set exactly when the car number is
  set, and then the order is not cancelled, the car number is the counter \<^verbatim>\<open>_car_number\<close>, and
  the counter has grown by exactly one; without a selected offer (cancelled or no order)
  the counter is unchanged.\<close>

theorem get_customer_order_simple_invariant:
  assumes "get_customer_order_simple s e st = (Inr od, st')"
  shows "(selected_offer od = None \<or> (\<exists>i. selected_offer od = Some i \<and> 1 \<le> i \<and> i \<le> 4))
       \<and> (selected_offer od \<noteq> None \<longleftrightarrow> car_number od \<noteq> None)
       \<and> (selected_offer od \<noteq> None \<longrightarrow>
            \<not> cancelled od \<and> car_number od = Some (self_car_number st')
            \<and> self_car_number st' = self_car_number st + 1)
       \<and> (selected_offer od = None \<longrightarrow> self_car_number st' = self_car_number st)"
  using simple_loop_result [OF assms [unfolded get_customer_order_simple_def]]
  by (auto simp: menu_choices_def)

theorem get_customer_order_simple_invariant_witness:
  "get_customer_order_simple demo_settings (demo_env (heard [Some ''zero'', Some ''number two please''])) initial_state
     = (Inr \<lparr>full_order_text = Some ''Zinger burger'', selected_offer = Some 2,
             order_phrases = [''Zinger burger''], car_number = Some 1,
             order_id = Some ''Car 1'', cancelled = False\<rparr>,
        initial_state\<lparr>self_car_number := 1, listen_calls := 2,
          spoken := (Menu_voice, ''Repeating the menu.'') # menu_announcement demo_settings
                    @ [(Menu_voice, ''Order confirmed. Car number one.'')]\<rparr>)
   \<and> self_car_number (initial_state\<lparr>self_car_number := 1, listen_calls := 2,
          spoken := (Menu_voice, ''Repeating the menu.'') # menu_announcement demo_settings
                    @ [(Menu_voice, ''Order confirmed. Car number one.'')]\<rparr>)
       = self_car_number initial_state + 1"
proof -
  have run: "get_customer_order_simple demo_settings
       (demo_env (heard [Some ''zero'', Some ''number two please''])) initial_state
     = (Inr \<lparr>full_order_text = Some ''Zinger burger'', selected_offer = Some 2,
             order_phrases = [''Zinger burger''], car_number = Some 1,
             order_id = Some ''Car 1'', cancelled = False\<rparr>,
        initial_state\<lparr>self_car_number := 1, listen_calls := 2,
          spoken := (Menu_voice, ''Repeating the menu.'') # menu_announcement demo_settings
                    @ [(Menu_voice, ''Order confirmed. Car number one.'')]\<rparr>)"
    by code_simp
  from get_customer_order_simple_invariant [OF run] run show ?thesis by simp
qed

section \<open>Containment under strip and lower\<close>

lemma contains_sublist: "contains n h = sublist n h"
  by (induction h) (auto simp: sublist_Cons_right)

lemma dropWhile_keeps:
  assumes "w \<noteq> []" "\<not> P (hd w)"
  shows "\<exists>ps'. dropWhile P (ps @ w @ ss) = ps' @ w @ ss"
proof (cases "\<forall>x\<in>set ps. P x")
  case True
  from assms obtain a w' where w: "w = a # w'" "\<not> P a" by (cases w) auto
  from True have "dropWhile P (ps @ w @ ss) = dropWhile P (w @ ss)"
    by simp
  with w have "dropWhile P (ps @ w @ ss) = [] @ w @ ss" by simp
  then show ?thesis by blast
next
  case False
  then have "dropWhile P (ps @ w @ ss) = dropWhile P ps @ w @ ss"
    by auto
  then show ?thesis by blast
qed

lemma sublist_strip:
  assumes "sublist w t" "w \<noteq> []" "\<not> isspace (hd w)" "\<not> isspace (last w)"
  shows "sublist w (strip t)"
proof -
  from assms(1) obtain ps ss where t: "t = ps @ w @ ss" by (auto simp: sublist_def)
  from dropWhile_keeps [of w isspace ps ss] assms(2,3) obtain ps' where
    a: "dropWhile isspace t = ps' @ w @ ss" unfolding t by blast
  have rw: "rev w \<noteq> []" "\<not> isspace (hd (rev w))"
    using assms(2,4) by (simp_all add: hd_rev)
  from dropWhile_keeps [of "rev w" isspace "rev ss" "rev ps'"] rw obtain qs where
    b: "dropWhile isspace (rev ss @ rev w @ rev ps') = qs @ rev w @ rev ps'" by blast
  have "strip t = rev (qs @ rev w @ rev ps')"
    unfolding strip_def a using b by simp
  then have "strip t = ps' @ w @ rev qs" by simp
  then show ?thesis unfolding sublist_def by blast
qed

lemma sublist_lower: "sublist w t \<Longrightarrow> sublist (lower w) (lower t)"
  unfolding sublist_def lower_def by (metis map_append)

lemma isspace_lower_char: "isspace (lower_char c) = isspace c"
  by (simp add: isspace_def lower_char_def)

lemma strip_lower: "strip (lower t) = lower (strip t)"
proof -
  have c: "isspace \<circ> lower_char = isspace" by (rule ext) (simp add: isspace_lower_char)
  show ?thesis
    by (simp add: strip_def lower_def dropWhile_map c rev_map)
qed

text \<open>A command word that occurs in the lower-cased text heard still occurs in the text
  that the checks read.\<close>

lemma contains_response_lower:
  assumes "contains w (lower r)" "w \<noteq> []" "\<not> isspace (hd w)" "\<not> isspace (last w)"
  shows "contains w (strip (lower (strip r)))"
proof -
  have "sublist w (strip (strip (lower r)))"
    using assms by (simp add: contains_sublist sublist_strip)
  then show ?thesis by (simp add: contains_sublist strip_lower)
qed

section \<open>The order of the command checks\<close>


lemma simple_pass_repeat:
  assumes "is_repeat (strip (lower (strip r)))" "strip r \<noteq> []"
  shows "simple_pass s (Some r) st = (None, announce_offers s (speak ''Repeating the menu.'' st))"
  using assms by (auto simp: simple_pass_def Let_def)

lemma simple_pass_cancel:
  assumes "\<not> is_repeat (strip (lower (strip r)))" "is_cancel (strip (lower (strip r)))"
    "strip r \<noteq> []"
  shows "simple_pass s (Some r) st = (Some (Inr cancelled_order), speak ''Order cancelled.'' st)"
  using assms by (auto simp: simple_pass_def Let_def)

lemma simple_pass_select:
  assumes "\<not> is_repeat (strip (lower (strip r)))" "\<not> is_cancel (strip (lower (strip r)))"
    "strip r \<noteq> []"
  shows "simple_pass s (Some r) st =
     (case find_offer menu_choices (strip (lower (strip r))) of
        None \<Rightarrow> (None, speak reprompt_unrecognized st)
      | Some sel \<Rightarrow> (Some (fst (confirm_order s (strip r) sel st)),
                     snd (confirm_order s (strip r) sel st)))"
  using assms by (auto simp: simple_pass_def Let_def split: option.splits prod.splits)

lemma contains_nonempty: "contains w t \<Longrightarrow> w \<noteq> [] \<Longrightarrow> t \<noteq> []"
  by (cases t) auto

lemma response_lower_nonempty:
  assumes "strip (lower (strip r)) \<noteq> []"
  shows "strip r \<noteq> []"
  using assms by auto



section \<open>Bounded listening\<close>

lemma listen_eq:
  "listen s e st = (listen_result s (listen_events e (listen_calls st)),
                    st\<lparr>listen_calls := Suc (listen_calls st)\<rparr>)"
  by (simp add: listen_def)






section \<open>Repeat requests and the results of listen\<close>

text \<open>C5, as stated, fails: after three time-outs a first repeat request is followed by
  the announcement and then by the end of the session, without another listen (nothing is
  reset); and the third repeat request of a session is still followed by the announcement
  and a listen, here answered by an order.\<close>

theorem repeat_limit_counterexample:
  "get_customer_order_simple demo_settings
       (demo_env (heard [None, None, None, Some ''0'', Some ''two''])) initial_state
     = (Inr no_order,
        initial_state\<lparr>listen_calls := 4,
          spoken := [(Menu_voice, reprompt_silence), (Menu_voice, reprompt_silence),
                     (Menu_voice, reprompt_silence), (Menu_voice, ''Repeating the menu.'')]
                    @ menu_announcement demo_settings\<rparr>)
   \<and> fst (get_customer_order_simple demo_settings
       (demo_env (heard [Some ''0'', Some ''0'', Some ''0'', Some ''two''])) initial_state)
     = Inr \<lparr>full_order_text = Some ''Zinger burger'', selected_offer = Some 2,
             order_phrases = [''Zinger burger''], car_number = Some 1,
             order_id = Some ''Car 1'', cancelled = False\<rparr>"
  by code_simp

text \<open>C5, amended: a recognized repeat request (the lower-cased text contains "0" or
  "zero", or contains "repeat" and has fewer than 15 characters) uses one of the
  \<open>max_repeats + 1\<close> passes of the session, the same passes that time-outs and unrecognized
  utterances use; no counter is reset. While passes remain after it, the controller says
  "Repeating the menu.", announces the full menu and listens again; a session whose passes
  are used up ends without an order.\<close>

theorem repeat_request:
  assumes "listen s e st = (Some r, st1)"
    and "is_repeat (strip (lower (strip r)))" and "strip r \<noteq> []"
    and "st2 = st1\<lparr>spoken := spoken st1 @ (Menu_voice, ''Repeating the menu.'') # menu_announcement s\<rparr>"
  shows "simple_loop (Suc (Suc n)) s e st = simple_loop (Suc n) s e st2
       \<and> simple_loop (Suc n) s e st2 =
           (case simple_pass s (fst (listen s e st2)) (snd (listen s e st2)) of
              (Some res, st3) \<Rightarrow> (res, st3)
            | (None, st3) \<Rightarrow> simple_loop n s e st3)
       \<and> listen_calls st2 = Suc (listen_calls st)
       \<and> simple_loop 0 s e st = (Inr no_order, st)
       \<and> get_customer_order_simple s e st = simple_loop (Suc (Suc 2)) s e st"
proof -
  have a: "announce_offers s (speak ''Repeating the menu.'' st1) = st2"
    by (simp add: announce_offers_spoken speak_def assms(4))
  from simple_pass_repeat [OF assms(2,3), of s st1] assms(1) a
  have "simple_loop (Suc (Suc n)) s e st = simple_loop (Suc n) s e st2" by simp
  moreover have "simple_loop (Suc n) s e st2 =
           (case simple_pass s (fst (listen s e st2)) (snd (listen s e st2)) of
              (Some res, st3) \<Rightarrow> (res, st3)
            | (None, st3) \<Rightarrow> simple_loop n s e st3)"
    by (cases "listen s e st2") simp
  moreover have "listen_calls st2 = Suc (listen_calls st)"
    using assms(1,4) by (auto simp: listen_def)
  moreover have "get_customer_order_simple s e st = simple_loop (Suc (Suc 2)) s e st"
    by (simp add: get_customer_order_simple_def max_repeats_def numeral_eq_Suc)
  ultimately show ?thesis by simp
qed

theorem repeat_request_witness:
  "listen demo_settings (demo_env (heard [Some ''Repeat'', Some ''four'']))
     initial_state = (Some ''Repeat'', initial_state\<lparr>listen_calls := 1\<rparr>)
   \<and> is_repeat (strip (lower (strip ''Repeat''))) \<and> strip ''Repeat'' \<noteq> []
   \<and> get_customer_order_simple demo_settings (demo_env (heard [Some ''Repeat'', Some ''four''])) initial_state
       = simple_loop (Suc 2) demo_settings (demo_env (heard [Some ''Repeat'', Some ''four'']))
           (initial_state\<lparr>listen_calls := 1,
              spoken := (Menu_voice, ''Repeating the menu.'') # menu_announcement demo_settings\<rparr>)"
proof -
  have l: "listen demo_settings (demo_env (heard [Some ''Repeat'', Some ''four'']))
     initial_state = (Some ''Repeat'', initial_state\<lparr>listen_calls := 1\<rparr>)"
    by code_simp
  have r: "is_repeat (strip (lower (strip ''Repeat'')))" by code_simp
  have n: "strip ''Repeat'' \<noteq> []" by code_simp
  have s: "initial_state\<lparr>listen_calls := 1,
              spoken := (Menu_voice, ''Repeating the menu.'') # menu_announcement demo_settings\<rparr>
       = (initial_state\<lparr>listen_calls := 1\<rparr>)\<lparr>spoken := spoken (initial_state\<lparr>listen_calls := 1\<rparr>)
            @ (Menu_voice, ''Repeating the menu.'') # menu_announcement demo_settings\<rparr>"
    by (simp add: initial_state_def)
  from repeat_request [OF l r n s, of 2] l r n show ?thesis by simp
qed




section \<open>Steps of the dialogue\<close>

lemma dialogue_step_refl [simp]: "dialogue_step st st"
  by (simp add: dialogue_step_def)

lemma simple_pass_dialogue: "dialogue_step st (snd (simple_pass s response st))"
  by (auto simp: dialogue_step_def simple_pass_def Let_def speak_def announce_offers_spoken
        confirm_order_def split: option.splits if_splits prod.splits)

lemma simple_loop_dialogue: "dialogue_step st (snd (simple_loop n s e st))"
proof (induction n arbitrary: st)
  case 0
  show ?case by simp
next
  case (Suc n)
  let ?st1 = "st\<lparr>listen_calls := Suc (listen_calls st)\<rparr>"
  let ?p = "simple_pass s (listen_result s (listen_events e (listen_calls st))) ?st1"
  have a: "dialogue_step st (snd ?p)"
    using simple_pass_dialogue [of ?st1 s] by (simp add: dialogue_step_def)
  show ?case
  proof (cases "fst ?p")
    case None
    then have "simple_loop (Suc n) s e st = simple_loop n s e (snd ?p)"
      by (cases ?p) (simp add: listen_eq)
    with Suc.IH [of "snd ?p"] a show ?thesis by (simp add: dialogue_step_def)
  next
    case (Some r)
    then have "simple_loop (Suc n) s e st = (r, snd ?p)"
      by (cases ?p) (simp add: listen_eq)
    with a show ?thesis by simp
  qed
qed

lemma order_pass_dialogue:
  "dialogue_step st (snd (snd (order_pass a s e ot sel st)))
   \<and> self_car_number (snd (snd (order_pass a s e ot sel st))) = self_car_number st"
  by (simp add: dialogue_step_def order_pass_def Let_def speak_def listen_eq
        split: option.splits)

lemma order_loop_dialogue:
  "dialogue_step st (snd (order_loop as s e ot sel st))
   \<and> self_car_number (snd (order_loop as s e ot sel st)) = self_car_number st"
proof (induction as arbitrary: ot sel st)
  case Nil
  show ?case by simp
next
  case (Cons a as)
  obtain b ot' sel' st' where p: "order_pass a s e ot sel st = (b, (ot', sel'), st')"
    by (metis prod.exhaust)
  with order_pass_dialogue [of st a s e ot sel]
  have d: "dialogue_step st st'" "self_car_number st' = self_car_number st" by simp_all
  show ?case
  proof (cases b)
    case True
    with p have "order_loop (a # as) s e ot sel st = order_loop as s e ot' sel' st'" by simp
    with Cons.IH [of st' ot' sel'] d show ?thesis by (simp add: dialogue_step_def)
  next
    case False
    with p d show ?thesis by simp
  qed
qed

lemma get_customer_order_dialogue:
  "dialogue_step st (snd (get_customer_order s e st))
   \<and> self_car_number (snd (get_customer_order s e st)) = self_car_number st
   \<and> \<not> cancelled (fst (get_customer_order s e st))
   \<and> car_number (fst (get_customer_order s e st)) = None"
  using order_loop_dialogue [of st "[0..<max_attempts]" s e None None]
  by (auto simp: get_customer_order_def split: prod.splits)

lemma process_order_with_ollama_dialogue:
  "dialogue_step st (snd (process_order_with_ollama s e t st))
   \<and> self_car_number (snd (process_order_with_ollama s e t st)) = self_car_number st
   \<and> spoken (snd (process_order_with_ollama s e t st)) = spoken st"
  by (simp add: dialogue_step_def process_order_with_ollama_def Let_def
        split: ollama_reply.splits)

lemma process_order_with_ollama_fields [simp]:
  "self_order_queue (snd (process_order_with_ollama s e t st)) = self_order_queue st"
  "self_current_customer (snd (process_order_with_ollama s e t st)) = self_current_customer st"
  "new_customers (snd (process_order_with_ollama s e t st)) = new_customers st"
  "self_running (snd (process_order_with_ollama s e t st)) = self_running st"
  "self_car_number (snd (process_order_with_ollama s e t st)) = self_car_number st"
  "spoken (snd (process_order_with_ollama s e t st)) = spoken st"
  using process_order_with_ollama_dialogue [of st s e t]
  by (simp_all add: dialogue_step_def)

lemma format_order_fields [simp]:
  "self_order_queue (snd (format_order s e t st)) = self_order_queue st"
  "self_current_customer (snd (format_order s e t st)) = self_current_customer st"
  "new_customers (snd (format_order s e t st)) = new_customers st"
  "self_running (snd (format_order s e t st)) = self_running st"
  "self_car_number (snd (format_order s e t st)) = self_car_number st"
  "spoken (snd (format_order s e t st)) = spoken st"
  by (simp_all add: format_order_def split_beta)

lemma confirm_readback_fields [simp]:
  "self_order_queue (confirm_readback s e t st) = self_order_queue st"
  "self_current_customer (confirm_readback s e t st) = self_current_customer st"
  "new_customers (confirm_readback s e t st) = new_customers st"
  "self_running (confirm_readback s e t st) = self_running st"
  "self_car_number (confirm_readback s e t st) = self_car_number st"
  by (simp_all add: confirm_readback_def Let_def listen_eq speak_def split: option.splits)

lemma get_customer_order_continuous_dialogue:
  "dialogue_step st (snd (get_customer_order_continuous s e st))
   \<and> self_car_number (snd (get_customer_order_continuous s e st)) = self_car_number st
   \<and> \<not> cancelled (fst (get_customer_order_continuous s e st))
   \<and> car_number (fst (get_customer_order_continuous s e st)) = None"
  unfolding get_customer_order_continuous_def Let_def listen_continuous_def
  by (simp add: split_beta speak_def dialogue_step_def)

lemma handoff_to_operator_cases:
  assumes "handoff_to_operator s e cid od st = (res, st')"
  shows "self_car_number st' = self_car_number st
       \<and> self_current_customer st' = self_current_customer st
       \<and> new_customers st' = new_customers st
       \<and> self_running st' = self_running st
       \<and> ((cancelled od \<and> res = Inr (HandoffCancelled cid) \<and> st' = st)
          \<or> (\<not> cancelled od \<and> res = Inl IndexError \<and> self_order_queue st' = self_order_queue st)
          \<or> (\<not> cancelled od \<and> (\<exists>r. res = Inr (ReadyForOperator r)
                \<and> self_order_queue st' = self_order_queue st @ [ReadyForOperator r]
                \<and> h_customer_id r = cid
                \<and> h_selected_offer r = selected_offer od
                \<and> h_car_number r = car_number od
                \<and> h_full_order_text r = full_order_text od)))"
proof (cases "cancelled od")
  case True
  with assms show ?thesis by (simp add: handoff_to_operator_def)
next
  case nc: False
  let ?sel = "case selected_offer od of None \<Rightarrow> 0 | Some i \<Rightarrow> i"
  show ?thesis
  proof (cases "?sel \<noteq> 0 \<and> \<not> ?sel - 1 < length (special_offers s)")
    case True
    with assms nc have "res = Inl IndexError" "st' = st\<lparr>clock_reads := Suc (clock_reads st)\<rparr>"
      by (simp_all add: handoff_to_operator_def Let_def)
    with nc show ?thesis by simp
  next
    case False
    with assms nc show ?thesis
      unfolding handoff_to_operator_def Let_def
      by (cases "truthy (full_order_text od)") (auto simp: speak_def)
  qed
qed

section \<open>One customer\<close>

lemma handoff_to_operator_simple_cases:
  assumes "handoff_to_operator_simple s e cid od st = (res, st')"
  shows "self_car_number st' = self_car_number st
       \<and> self_current_customer st' = self_current_customer st
       \<and> new_customers st' = new_customers st
       \<and> self_running st' = self_running st
       \<and> ((cancelled od \<and> res = Inr (HandoffCancelled cid) \<and> st' = st)
          \<or> (\<not> cancelled od \<and> res = Inl IndexError \<and> self_order_queue st' = self_order_queue st)
          \<or> (\<not> cancelled od \<and> (\<exists>r. res = Inr (ReadyForOperator r)
                \<and> self_order_queue st' = self_order_queue st @ [ReadyForOperator r]
                \<and> h_customer_id r = cid
                \<and> h_selected_offer r = selected_offer od
                \<and> h_car_number r = car_number od
                \<and> h_full_order_text r = full_order_text od)))"
proof (cases "cancelled od")
  case True
  with assms show ?thesis by (simp add: handoff_to_operator_simple_def)
next
  case False
  define st0 where "st0 = speak_order (''Your order is. '' @ (if truthy (full_order_text od)
      then the (full_order_text od) else ''No order captured'')) st"
  from assms False have h: "handoff_to_operator s e cid od st0 = (res, st')"
    by (simp add: handoff_to_operator_simple_def Let_def st0_def)
  have s: "self_car_number st0 = self_car_number st"
    "self_current_customer st0 = self_current_customer st"
    "new_customers st0 = new_customers st" "self_running st0 = self_running st"
    "self_order_queue st0 = self_order_queue st"
    by (simp_all add: st0_def speak_order_def)
  from handoff_to_operator_cases [OF h] False show ?thesis
    unfolding s by blast
qed

lemma process_customer_flows:
  assumes "process_customer s e st = (res, st')"
    and "cid = ''CUST_'' @ clock e (clock_reads st)"
    and "st2 = announce_offers s (st\<lparr>clock_reads := Suc (clock_reads st),
                   self_current_customer := Some cid,
                   new_customers := new_customers st @ [cid]\<rparr>)"
  shows "\<exists>st4.
           (case res of Inl err \<Rightarrow> st' = st4 | Inr info \<Rightarrow> st' = st4\<lparr>self_current_customer := None\<rparr>)
           \<and> ((simple_flow s \<and> (\<exists>err st3. get_customer_order_simple s e st2 = (Inl err, st3)
                                \<and> res = Inl err \<and> st4 = st3))
              \<or> (simple_flow s \<and> (\<exists>od st3. get_customer_order_simple s e st2 = (Inr od, st3)
                                \<and> handoff_to_operator_simple s e cid od st3 = (res, st4)))
              \<or> (\<not> simple_flow s \<and> use_continuous_listening s
                    \<and> handoff_to_operator s e cid (fst (get_customer_order_continuous s e st2))
                         (snd (get_customer_order_continuous s e st2)) = (res, st4))
              \<or> (\<not> simple_flow s \<and> \<not> use_continuous_listening s
                    \<and> handoff_to_operator s e cid (fst (get_customer_order s e st2))
                         (snd (get_customer_order s e st2)) = (res, st4)))"
  using assms(1) unfolding process_customer_def Let_def assms(2,3)[symmetric]
  by (auto split: if_splits prod.splits sum.splits error.splits)

section \<open>The hand-off queue and the car number\<close>

text \<open>C1, as stated, fails: a session that ends cancelled pushes nothing onto the queue.\<close>

theorem cancelled_session_counterexample:
  "fst (process_customer demo_settings (demo_env (heard [Some ''six''])) initial_state)
     = Inr (HandoffCancelled ''CUST_0'')
   \<and> self_order_queue (snd (process_customer demo_settings (demo_env (heard [Some ''six'']))
        initial_state)) = []"
  by code_simp

text \<open>C1, amended: a call of \<^verbatim>\<open>process_customer\<close> that returns has pushed exactly one
  record onto the queue, the one it returns, unless the order was cancelled: then it pushes
  nothing and returns the short record of a cancelled order. The pushed record carries the
  customer id, the selected offer and the car number of the order (both \<^verbatim>\<open>None\<close> when the
  session ended without an order); it has no field for the outcome.\<close>

theorem process_customer_queue:
  assumes "process_customer s e st = (Inr info, st')"
    and "cid = ''CUST_'' @ clock e (clock_reads st)"
    and "st2 = announce_offers s (st\<lparr>clock_reads := Suc (clock_reads st),
                   self_current_customer := Some cid,
                   new_customers := new_customers st @ [cid]\<rparr>)"
  shows "(simple_flow s \<longrightarrow>
           (\<exists>od st3. get_customer_order_simple s e st2 = (Inr od, st3) \<and>
              (if cancelled od
               then info = HandoffCancelled cid \<and> self_order_queue st' = self_order_queue st
               else \<exists>r. info = ReadyForOperator r
                      \<and> self_order_queue st' = self_order_queue st @ [info]
                      \<and> h_customer_id r = cid
                      \<and> h_selected_offer r = selected_offer od
                      \<and> h_car_number r = car_number od)))
       \<and> (\<not> simple_flow s \<longrightarrow>
           (\<exists>r. info = ReadyForOperator r
                \<and> self_order_queue st' = self_order_queue st @ [info]
                \<and> h_customer_id r = cid))"
proof -
  have q2: "self_order_queue st2 = self_order_queue st"
    by (simp add: assms(3) announce_offers_spoken)
  from process_customer_flows [OF assms] obtain st4 where
    st': "st' = st4\<lparr>self_current_customer := None\<rparr>" and
    fl: "(simple_flow s \<and> (\<exists>od st3. get_customer_order_simple s e st2 = (Inr od, st3)
                                \<and> handoff_to_operator_simple s e cid od st3 = (Inr info, st4)))
         \<or> (\<not> simple_flow s \<and> use_continuous_listening s
               \<and> handoff_to_operator s e cid (fst (get_customer_order_continuous s e st2))
                    (snd (get_customer_order_continuous s e st2)) = (Inr info, st4))
         \<or> (\<not> simple_flow s \<and> \<not> use_continuous_listening s
               \<and> handoff_to_operator s e cid (fst (get_customer_order s e st2))
                    (snd (get_customer_order s e st2)) = (Inr info, st4))"
    by auto
  from fl consider
      (simple) od st3 where "simple_flow s" "get_customer_order_simple s e st2 = (Inr od, st3)"
        "handoff_to_operator_simple s e cid od st3 = (Inr info, st4)"
    | (continuous) "\<not> simple_flow s"
        "handoff_to_operator s e cid (fst (get_customer_order_continuous s e st2))
           (snd (get_customer_order_continuous s e st2)) = (Inr info, st4)"
    | (full) "\<not> simple_flow s"
        "handoff_to_operator s e cid (fst (get_customer_order s e st2))
           (snd (get_customer_order s e st2)) = (Inr info, st4)"
    by blast
  then show ?thesis
  proof cases
    case simple
    have "self_order_queue st3 = self_order_queue st2"
      using simple_loop_dialogue [of st2 "max_repeats + 1" s e] simple(2)
      by (simp add: get_customer_order_simple_def dialogue_step_def)
    with q2 have q3: "self_order_queue st3 = self_order_queue st" by simp
    from handoff_to_operator_simple_cases [OF simple(3)] q3 st' simple(1,2)
    show ?thesis by auto
  next
    case continuous
    have "self_order_queue (snd (get_customer_order_continuous s e st2)) = self_order_queue st"
      using get_customer_order_continuous_dialogue [of st2 s e] q2
      by (simp add: dialogue_step_def)
    with handoff_to_operator_cases [OF continuous(2)] st' continuous(1)
      get_customer_order_continuous_dialogue [of st2 s e]
    show ?thesis by auto
  next
    case full
    have "self_order_queue (snd (get_customer_order s e st2)) = self_order_queue st"
      using get_customer_order_dialogue [of st2 s e] q2
      by (simp add: dialogue_step_def)
    with handoff_to_operator_cases [OF full(2)] st' full(1)
      get_customer_order_dialogue [of st2 s e]
    show ?thesis by auto
  qed
qed

theorem process_customer_queue_witness:
  "fst (process_customer demo_settings (demo_env (heard [Some ''zero'', Some ''number two please''])) initial_state)
     = Inr (ReadyForOperator
        \<lparr>h_customer_id = ''CUST_0'', h_order_id = ''Car 1'', h_car_number = Some 1,
         h_timestamp = ''1'', h_full_order_text = Some ''Zinger burger'',
         h_order_phrases = [''Zinger burger''], h_selected_offer = Some 2,
         h_offer_details = Some ''Zinger burger''\<rparr>)
   \<and> self_order_queue (snd (process_customer demo_settings
          (demo_env (heard [Some ''zero'', Some ''number two please''])) initial_state))
     = self_order_queue initial_state @ [ReadyForOperator
        \<lparr>h_customer_id = ''CUST_0'', h_order_id = ''Car 1'', h_car_number = Some 1,
         h_timestamp = ''1'', h_full_order_text = Some ''Zinger burger'',
         h_order_phrases = [''Zinger burger''], h_selected_offer = Some 2,
         h_offer_details = Some ''Zinger burger''\<rparr>]"
proof -
  let ?p = "process_customer demo_settings
          (demo_env (heard [Some ''zero'', Some ''number two please''])) initial_state"
  let ?r = "\<lparr>h_customer_id = ''CUST_0'', h_order_id = ''Car 1'', h_car_number = Some 1,
         h_timestamp = ''1'', h_full_order_text = Some ''Zinger burger'',
         h_order_phrases = [''Zinger burger''], h_selected_offer = Some 2,
         h_offer_details = Some ''Zinger burger''\<rparr>"
  have f: "fst ?p = Inr (ReadyForOperator ?r)" by code_simp
  then have run: "?p = (Inr (ReadyForOperator ?r), snd ?p)" by (metis prod.collapse)
  have sf: "simple_flow demo_settings" by (simp add: demo_settings_def)
  from process_customer_queue [OF run refl refl] sf
  have "self_order_queue (snd ?p) = self_order_queue initial_state @ [ReadyForOperator ?r]"
    by (auto split: if_splits)
  with f show ?thesis by simp
qed

text \<open>C7, as stated, fails: a session in which nothing is heard is handed to the operator
  without a car number, and the counter is still 0 after it.\<close>

theorem sequence_number_counterexample:
  "(case fst (process_customer demo_settings (demo_env (heard [])) initial_state) of
      Inr (ReadyForOperator r) \<Rightarrow> h_car_number r = None \<and> h_order_id r = ''CUST_0''
    | _ \<Rightarrow> False)
   \<and> self_car_number (snd (process_customer demo_settings (demo_env (heard [])) initial_state)) = 0"
  by code_simp

text \<open>C7, amended: the car number is assigned when an order is confirmed, after the
  announcement and the listening, not at arrival. The announcement leaves the counter as it
  is; a session of the simple flow that selects an offer carries the next car number and
  increments the counter by one; every other session (cancelled, without an order, or of a
  full flow) carries no car number and leaves the counter unchanged. At arrival the session
  only gets its customer id from the clock.\<close>

theorem car_number_on_confirmation:
  assumes "process_customer s e st = (Inr info, st')"
  shows "self_car_number (announce_offers s st) = self_car_number st
       \<and> new_customers st' = new_customers st @ [''CUST_'' @ clock e (clock_reads st)]
       \<and> (case info of
            HandoffCancelled cid \<Rightarrow> self_car_number st' = self_car_number st
          | ReadyForOperator r \<Rightarrow>
              if simple_flow s \<and> h_selected_offer r \<noteq> None
              then h_car_number r = Some (self_car_number st + 1)
                   \<and> self_car_number st' = self_car_number st + 1
              else h_car_number r = None \<and> self_car_number st' = self_car_number st)"
proof -
  define cid where "cid = ''CUST_'' @ clock e (clock_reads st)"
  define st2 where "st2 = announce_offers s (st\<lparr>clock_reads := Suc (clock_reads st),
                   self_current_customer := Some cid,
                   new_customers := new_customers st @ [cid]\<rparr>)"
  have c2: "self_car_number st2 = self_car_number st"
    "new_customers st2 = new_customers st @ [cid]"
    by (simp_all add: st2_def announce_offers_spoken)
  from process_customer_flows [OF assms cid_def st2_def] obtain st4 where
    st': "st' = st4\<lparr>self_current_customer := None\<rparr>" and
    fl: "(simple_flow s \<and> (\<exists>od st3. get_customer_order_simple s e st2 = (Inr od, st3)
                                \<and> handoff_to_operator_simple s e cid od st3 = (Inr info, st4)))
         \<or> (\<not> simple_flow s \<and> use_continuous_listening s
               \<and> handoff_to_operator s e cid (fst (get_customer_order_continuous s e st2))
                    (snd (get_customer_order_continuous s e st2)) = (Inr info, st4))
         \<or> (\<not> simple_flow s \<and> \<not> use_continuous_listening s
               \<and> handoff_to_operator s e cid (fst (get_customer_order s e st2))
                    (snd (get_customer_order s e st2)) = (Inr info, st4))"
    by auto
  from fl consider
      (simple) od st3 where "simple_flow s" "get_customer_order_simple s e st2 = (Inr od, st3)"
        "handoff_to_operator_simple s e cid od st3 = (Inr info, st4)"
    | (continuous) "\<not> simple_flow s"
        "handoff_to_operator s e cid (fst (get_customer_order_continuous s e st2))
           (snd (get_customer_order_continuous s e st2)) = (Inr info, st4)"
    | (full) "\<not> simple_flow s"
        "handoff_to_operator s e cid (fst (get_customer_order s e st2))
           (snd (get_customer_order s e st2)) = (Inr info, st4)"
    by blast
  then have main: "new_customers st' = new_customers st @ [cid]
       \<and> (case info of
            HandoffCancelled cid \<Rightarrow> self_car_number st' = self_car_number st
          | ReadyForOperator r \<Rightarrow>
              if simple_flow s \<and> h_selected_offer r \<noteq> None
              then h_car_number r = Some (self_car_number st + 1)
                   \<and> self_car_number st' = self_car_number st + 1
              else h_car_number r = None \<and> self_car_number st' = self_car_number st)"
  proof cases
    case simple
    have d: "new_customers st3 = new_customers st2"
      using simple_loop_dialogue [of st2 "max_repeats + 1" s e] simple(2)
      by (simp add: get_customer_order_simple_def dialogue_step_def)
    note r = simple_loop_result [OF simple(2) [unfolded get_customer_order_simple_def]]
    from handoff_to_operator_simple_cases [OF simple(3)] r d c2 st' simple(1)
    show ?thesis by (auto simp: cancelled_order_def)
  next
    case continuous
    from handoff_to_operator_cases [OF continuous(2)] st' continuous(1) c2
      get_customer_order_continuous_dialogue [of st2 s e]
    show ?thesis by (auto simp: dialogue_step_def)
  next
    case full
    from handoff_to_operator_cases [OF full(2)] st' full(1) c2
      get_customer_order_dialogue [of st2 s e]
    show ?thesis by (auto simp: dialogue_step_def)
  qed
  then show ?thesis by (simp add: announce_offers_spoken cid_def)
qed

theorem car_number_on_confirmation_witness:
  "fst (process_customer demo_settings (demo_env (heard [Some ''six''])) initial_state)
     = Inr (HandoffCancelled ''CUST_0'')
   \<and> self_car_number (snd (process_customer demo_settings (demo_env (heard [Some ''six'']))
        initial_state)) = self_car_number initial_state"
proof -
  let ?p = "process_customer demo_settings (demo_env (heard [Some ''six''])) initial_state"
  have f: "fst ?p = Inr (HandoffCancelled ''CUST_0'')" by code_simp
  then have run: "?p = (Inr (HandoffCancelled ''CUST_0''), snd ?p)" by (metis prod.collapse)
  from car_number_on_confirmation [OF run] f show ?thesis by simp
qed

section \<open>The main loop\<close>

lemma process_customer_session:
  assumes "process_customer s e st = (res, st')"
  shows "new_customers st' = new_customers st @ [''CUST_'' @ clock e (clock_reads st)]
       \<and> self_running st' = self_running st
       \<and> (\<forall>info. res = Inr info \<longrightarrow> self_current_customer st' = None)"
proof -
  define cid where "cid = ''CUST_'' @ clock e (clock_reads st)"
  define st2 where "st2 = announce_offers s (st\<lparr>clock_reads := Suc (clock_reads st),
                   self_current_customer := Some cid,
                   new_customers := new_customers st @ [cid]\<rparr>)"
  have c2: "self_running st2 = self_running st"
    "new_customers st2 = new_customers st @ [cid]"
    by (simp_all add: st2_def announce_offers_spoken)
  from process_customer_flows [OF assms cid_def st2_def] obtain st4 where
    st': "case res of Inl err \<Rightarrow> st' = st4 | Inr info \<Rightarrow> st' = st4\<lparr>self_current_customer := None\<rparr>" and
    fl: "(simple_flow s \<and> (\<exists>err st3. get_customer_order_simple s e st2 = (Inl err, st3)
                                \<and> res = Inl err \<and> st4 = st3))
         \<or> (simple_flow s \<and> (\<exists>od st3. get_customer_order_simple s e st2 = (Inr od, st3)
                                \<and> handoff_to_operator_simple s e cid od st3 = (res, st4)))
         \<or> (\<not> simple_flow s \<and> use_continuous_listening s
               \<and> handoff_to_operator s e cid (fst (get_customer_order_continuous s e st2))
                    (snd (get_customer_order_continuous s e st2)) = (res, st4))
         \<or> (\<not> simple_flow s \<and> \<not> use_continuous_listening s
               \<and> handoff_to_operator s e cid (fst (get_customer_order s e st2))
                    (snd (get_customer_order s e st2)) = (res, st4))"
    by blast
  have simple: "\<And>r st3. get_customer_order_simple s e st2 = (r, st3) \<Longrightarrow>
      new_customers st3 = new_customers st2 \<and> self_running st3 = self_running st2"
    using simple_loop_dialogue [of st2 "max_repeats + 1" s e]
    by (simp add: get_customer_order_simple_def dialogue_step_def)
  have "new_customers st4 = new_customers st @ [cid] \<and> self_running st4 = self_running st"
    using fl
  proof (elim disjE conjE exE)
    fix err st3
    assume "get_customer_order_simple s e st2 = (Inl err, st3)" "st4 = st3"
    with simple c2 show ?thesis by simp
  next
    fix od st3
    assume a: "get_customer_order_simple s e st2 = (Inr od, st3)"
      "handoff_to_operator_simple s e cid od st3 = (res, st4)"
    from handoff_to_operator_simple_cases [OF a(2)] simple [OF a(1)] c2
    show ?thesis by simp
  next
    assume a: "handoff_to_operator s e cid (fst (get_customer_order_continuous s e st2))
                    (snd (get_customer_order_continuous s e st2)) = (res, st4)"
    from handoff_to_operator_cases [OF a] get_customer_order_continuous_dialogue [of st2 s e] c2
    show ?thesis by (simp add: dialogue_step_def)
  next
    assume a: "handoff_to_operator s e cid (fst (get_customer_order s e st2))
                    (snd (get_customer_order s e st2)) = (res, st4)"
    from handoff_to_operator_cases [OF a] get_customer_order_dialogue [of st2 s e] c2
    show ?thesis by (simp add: dialogue_step_def)
  qed
  with st' show ?thesis by (cases res) (simp_all add: cid_def)
qed

lemma run_loop_sessions:
  assumes "self_current_customer st = None" "self_running st"
    and "run_loop s e raws car_detected st = (err, cd', st')"
  shows "length (new_customers st')
           \<le> length (new_customers st) + arrivals car_detected (map (detect_car_approach s) raws)
       \<and> (err = None \<longrightarrow> self_current_customer st' = None
             \<and> length (new_customers st')
                 = length (new_customers st) + arrivals car_detected (map (detect_car_approach s) raws))"
  using assms
proof (induction raws arbitrary: car_detected st)
  case Nil
  then show ?case by simp
next
  case (Cons raw raws)
  show ?case
  proof (cases "detect_car_approach s raw")
    case False
    with Cons.prems have "run_loop s e raws False st = (err, cd', st')" by simp
    from Cons.IH [OF Cons.prems(1,2) this] False show ?thesis by simp
  next
    case present: True
    show ?thesis
    proof (cases car_detected)
      case True
      with Cons.prems present have "run_loop s e raws True st = (err, cd', st')" by simp
      from Cons.IH [OF Cons.prems(1,2) this] present True show ?thesis by simp
    next
      case False
      obtain res st1 where p: "process_customer s e st = (res, st1)"
        by (cases "process_customer s e st")
      note ps = process_customer_session [OF p]
      show ?thesis
      proof (cases res)
        case (Inl x)
        with Cons.prems present False p have "err = Some x" "st' = st1" by simp_all
        with ps present False show ?thesis by simp
      next
        case (Inr info)
        with Cons.prems present False p have r: "run_loop s e raws True st1 = (err, cd', st')"
          by simp
        from ps Inr Cons.prems(2) have "self_current_customer st1 = None" "self_running st1"
          by simp_all
        from Cons.IH [OF this r] ps present False show ?thesis by simp
      qed
    qed
  qed
qed

text \<open>C3: whatever readings of the detector the main loop gets, it calls
  \<^verbatim>\<open>process_customer\<close> once for each arrival (a reading with a car present after a reading
  with none) and never otherwise, so a car that stays present starts no second session;
  between two calls no customer is current, so at most one session is in progress.\<close>

theorem run_single_flight:
  assumes "self_current_customer st = None"
    and "run s e raws st = (err, car_detected, st')"
  shows "length (new_customers st')
           \<le> length (new_customers st) + arrivals False (map (detect_car_approach s) raws)
       \<and> (err = None \<longrightarrow> self_current_customer st' = None
             \<and> length (new_customers st')
                 = length (new_customers st) + arrivals False (map (detect_car_approach s) raws))"
  using run_loop_sessions [of "st\<lparr>self_running := True\<rparr>" s e raws False err car_detected st'] assms
  by (simp add: run_def)

theorem run_single_flight_witness:
  "self_current_customer initial_state = None
   \<and> fst (run demo_settings (demo_env (heard [Some ''two'', Some ''six'']))
            [True, True, False, True, True] initial_state) = None
   \<and> arrivals False (map (detect_car_approach demo_settings) [True, True, False, True, True]) = 2
   \<and> length (new_customers (snd (snd (run demo_settings (demo_env (heard [Some ''two'', Some ''six'']))
            [True, True, False, True, True] initial_state)))) = length (new_customers initial_state) + 2"
proof -
  let ?r = "run demo_settings (demo_env (heard [Some ''two'', Some ''six'']))
            [True, True, False, True, True] initial_state"
  have c: "self_current_customer initial_state = None" by (simp add: initial_state_def)
  have f: "fst ?r = None" by code_simp
  have a: "arrivals False (map (detect_car_approach demo_settings) [True, True, False, True, True]) = 2"
    by code_simp
  have run: "?r = (None, fst (snd ?r), snd (snd ?r))" using f by (metis prod.collapse)
  from run_single_flight [OF c run] a c f show ?thesis by simp
qed

section \<open>Digits and number words\<close>

lemma find_offer_first:
  assumes "mentions c t" "1 \<le> c" "c \<le> n" "\<forall>j. 1 \<le> j \<and> j < c \<longrightarrow> \<not> mentions j t"
  shows "find_offer n t = Some c"
proof -
  have len: "c - 1 < length [1..<Suc n]" using assms(2,3) by simp
  have nth: "\<And>i. i \<le> c - 1 \<Longrightarrow> [1..<Suc n] ! i = Suc i"
    using assms(2,3) by (simp del: upt_Suc)
  have "\<forall>j<c - 1. \<not> mentions ([1..<Suc n] ! j) t"
    using assms(4) nth by auto
  moreover have "mentions ([1..<Suc n] ! (c - 1)) t" "c = [1..<Suc n] ! (c - 1)"
    using assms(1,2) nth [of "c - 1"] by simp_all
  ultimately show ?thesis
    unfolding find_offer_def find_Some_iff using len by blast
qed

lemma form_contains:
  assumes "w \<noteq> []" "\<not> isspace (hd w)" "\<not> isspace (last w)" "lower w = w"
  shows "contains w (strip (lower (strip (pre @ w @ post))))"
proof -
  have "sublist w (pre @ w @ post)" by (auto simp: sublist_def)
  from sublist_lower [OF this] assms(4) have "contains w (lower (pre @ w @ post))"
    by (simp add: contains_sublist)
  from contains_response_lower [OF this assms(1-3)] show ?thesis .
qed

lemma code_forms:
  assumes "c \<in> {0, 1, 2, 3, 4, 6}"
  shows "str c \<noteq> [] \<and> \<not> isspace (hd (str c)) \<and> \<not> isspace (last (str c)) \<and> lower (str c) = str c
       \<and> number_to_word c \<noteq> [] \<and> \<not> isspace (hd (number_to_word c))
       \<and> \<not> isspace (last (number_to_word c)) \<and> lower (number_to_word c) = number_to_word c"
proof -
  from assms consider "c = 0" | "c = 1" | "c = 2" | "c = 3" | "c = 4" | "c = 6" by auto
  then show ?thesis
    by cases (simp_all add: str.simps number_to_word_def isspace_def lower_def lower_char_def)
qed

lemma confirm_order_offers:
  assumes "special_offers s \<noteq> []"
  shows "confirm_order s ot sel st = confirm_order s ot' sel st"
  using assms by (cases "special_offers s") (simp_all add: confirm_order_def Let_def menu_choices_def)

lemma simple_pass_forms:
  assumes "c \<in> {0, 1, 2, 3, 4, 6}"
    and "\<not> earlier_check c (strip (lower (strip (pre @ str c @ post))))"
    and "\<not> earlier_check c (strip (lower (strip (pre @ number_to_word c @ post))))"
    and "c \<in> {1, 2, 3, 4} \<longrightarrow> special_offers s \<noteq> []"
  shows "simple_pass s (Some (pre @ str c @ post)) st
           = simple_pass s (Some (pre @ number_to_word c @ post)) st"
proof -
  let ?d = "pre @ str c @ post" and ?w = "pre @ number_to_word c @ post"
  let ?rd = "strip (lower (strip ?d))" and ?rw = "strip (lower (strip ?w))"
  note f = code_forms [OF assms(1)]
  have cd: "contains (str c) ?rd" using f by (intro form_contains) simp_all
  have cw: "contains (number_to_word c) ?rw" using f by (intro form_contains) simp_all
  have ned: "strip ?d \<noteq> []" using cd f contains_nonempty response_lower_nonempty by blast
  have new: "strip ?w \<noteq> []" using cw f contains_nonempty response_lower_nonempty by blast
  consider (repeat) "c = 0" | (cancel) "c = 6" | (select) "1 \<le> c" "c \<le> 4"
    using assms(1) by auto
  then show ?thesis
  proof cases
    case repeat
    with cd cw have "is_repeat ?rd" "is_repeat ?rw"
      by (simp_all add: is_repeat_def number_to_word_def)
    then show ?thesis using ned new by (simp add: simple_pass_repeat)
  next
    case cancel
    with cd cw have "is_cancel ?rd" "is_cancel ?rw"
      by (simp_all add: is_cancel_def number_to_word_def)
    moreover from cancel assms(2,3) have "\<not> is_repeat ?rd" "\<not> is_repeat ?rw"
      by (simp_all add: earlier_check_def)
    ultimately show ?thesis using ned new by (simp add: simple_pass_cancel)
  next
    case select
    with assms(2,3) have nr: "\<not> is_repeat ?rd" "\<not> is_repeat ?rw"
      and nc: "\<not> is_cancel ?rd" "\<not> is_cancel ?rw"
      and least: "\<forall>j. 1 \<le> j \<and> j < c \<longrightarrow> \<not> mentions j ?rd"
                 "\<forall>j. 1 \<le> j \<and> j < c \<longrightarrow> \<not> mentions j ?rw"
      by (auto simp: earlier_check_def list_ex_iff)
    have md: "mentions c ?rd" and mw: "mentions c ?rw"
      using cd cw by (simp_all add: mentions_def)
    have fd: "find_offer menu_choices ?rd = Some c"
      using find_offer_first [OF md select(1) _ least(1)] select(2) by (simp add: menu_choices_def)
    have fw: "find_offer menu_choices ?rw = Some c"
      using find_offer_first [OF mw select(1) _ least(2)] select(2) by (simp add: menu_choices_def)
    from select assms(4) have "special_offers s \<noteq> []" by auto
    from confirm_order_offers [OF this]
    have "confirm_order s (strip ?d) c st = confirm_order s (strip ?w) c st" .
    then show ?thesis
      using simple_pass_select [OF nr(1) nc(1) ned] simple_pass_select [OF nr(2) nc(2) new] fd fw
      by simp
  qed
qed

lemma simple_loop_swap:
  assumes "\<forall>st0. simple_pass s (listen_result s (listen_events e k)) st0
                  = simple_pass s (listen_result s (listen_events e' k)) st0"
    and "\<forall>n. n \<noteq> k \<longrightarrow> listen_events e' n = listen_events e n"
  shows "simple_loop m s e st = simple_loop m s e' st"
proof (induction m arbitrary: st)
  case 0
  show ?case by simp
next
  case (Suc m)
  have "simple_pass s (listen_result s (listen_events e (listen_calls st))) st0
      = simple_pass s (listen_result s (listen_events e' (listen_calls st))) st0" for st0
    using assms by (cases "listen_calls st = k") simp_all
  then show ?case using Suc.IH by (simp add: listen_eq split: prod.splits option.splits)
qed

text \<open>C4, as stated, fails: in the carrier text "repeat item ..." the digit 2 gives a text
  of 13 characters, which the repeat check accepts, so the menu is repeated and the session
  ends without an order; the word "two" gives 15 characters and selects offer 2.\<close>

theorem code_equivalence_counterexample:
  "fst (get_customer_order_simple demo_settings
          (demo_env (heard [Some (''repeat item '' @ str 2)])) initial_state) = Inr no_order
   \<and> fst (get_customer_order_simple demo_settings
          (demo_env (heard [Some (''repeat item '' @ number_to_word 2)])) initial_state)
      = Inr \<lparr>full_order_text = Some ''Zinger burger'', selected_offer = Some 2,
              order_phrases = [''Zinger burger''], car_number = Some 1,
              order_id = Some ''Car 1'', cancelled = False\<rparr>"
  by code_simp

text \<open>C4, amended: for every code \<open>c\<close> of 0, 1..4 and 6 and every carrier text, the check
  of \<open>c\<close> itself succeeds on the utterance with the digit and on the utterance with the
  number word (by substring containment on the lower-cased text, not by exact match). The
  two utterances give the same transition and the same returned dictionary whenever no
  earlier check succeeds on either of them (the repeat check, which also accepts "repeat"
  in a text shorter than 15 characters, comes first, then cancel, then 1 to 4 in order)
  and, for a selection, the menu is not empty (with an empty menu the dictionary carries
  the text heard).\<close>

theorem code_equivalence:
  assumes "c \<in> {0, 1, 2, 3, 4, 6}"
    and "digit_form = pre @ str c @ post"
    and "word_form = pre @ number_to_word c @ post"
    and "\<not> earlier_check c (strip (lower (strip digit_form)))"
    and "\<not> earlier_check c (strip (lower (strip word_form)))"
    and "c \<in> {1, 2, 3, 4} \<longrightarrow> special_offers s \<noteq> []"
    and "listen_result s (listen_events e k) = Some digit_form"
    and "listen_result s (listen_events e' k) = Some word_form"
    and "\<forall>n. n \<noteq> k \<longrightarrow> listen_events e' n = listen_events e n"
  shows "mentions c (strip (lower (strip digit_form)))
       \<and> mentions c (strip (lower (strip word_form)))
       \<and> simple_pass s (Some digit_form) st = simple_pass s (Some word_form) st
       \<and> get_customer_order_simple s e st = get_customer_order_simple s e' st"
proof -
  note f = code_forms [OF assms(1)]
  have "contains (str c) (strip (lower (strip digit_form)))"
    unfolding assms(2) using f by (intro form_contains) simp_all
  then have m1: "mentions c (strip (lower (strip digit_form)))" by (simp add: mentions_def)
  have "contains (number_to_word c) (strip (lower (strip word_form)))"
    unfolding assms(3) using f by (intro form_contains) simp_all
  then have m2: "mentions c (strip (lower (strip word_form)))" by (simp add: mentions_def)
  have p: "simple_pass s (Some digit_form) st0 = simple_pass s (Some word_form) st0" for st0
    unfolding assms(2,3)
    using simple_pass_forms [OF assms(1) assms(4) [unfolded assms(2)] assms(5) [unfolded assms(3)] assms(6)] .
  then have "\<forall>st0. simple_pass s (listen_result s (listen_events e k)) st0
                  = simple_pass s (listen_result s (listen_events e' k)) st0"
    by (simp add: assms(7,8))
  from simple_loop_swap [OF this assms(9)]
  have "get_customer_order_simple s e st = get_customer_order_simple s e' st"
    by (simp add: get_customer_order_simple_def)
  with m1 m2 p show ?thesis by simp
qed

theorem code_equivalence_witness:
  "\<not> earlier_check 2 (strip (lower (strip (''I will have number '' @ str 2 @ '' please''))))
   \<and> \<not> earlier_check 2 (strip (lower (strip (''I will have number '' @ number_to_word 2 @ '' please''))))
   \<and> special_offers demo_settings \<noteq> []
   \<and> get_customer_order_simple demo_settings
        (demo_env (heard [Some (''I will have number '' @ str 2 @ '' please'')])) initial_state
     = get_customer_order_simple demo_settings
        (demo_env (heard [Some (''I will have number '' @ number_to_word 2 @ '' please'')])) initial_state
   \<and> fst (get_customer_order_simple demo_settings
        (demo_env (heard [Some (''I will have number '' @ number_to_word 2 @ '' please'')])) initial_state)
     = Inr \<lparr>full_order_text = Some ''Zinger burger'', selected_offer = Some 2,
              order_phrases = [''Zinger burger''], car_number = Some 1,
              order_id = Some ''Car 1'', cancelled = False\<rparr>"
proof -
  let ?d = "''I will have number '' @ str 2 @ '' please''"
  let ?w = "''I will have number '' @ number_to_word 2 @ '' please''"
  let ?e = "demo_env (heard [Some ?d])" and ?e' = "demo_env (heard [Some ?w])"
  have c: "(2::nat) \<in> {0, 1, 2, 3, 4, 6}" by simp
  have h1: "\<not> earlier_check 2 (strip (lower (strip ?d)))" by code_simp
  have h2: "\<not> earlier_check 2 (strip (lower (strip ?w)))" by code_simp
  have h3: "special_offers demo_settings \<noteq> []" by (simp add: demo_settings_def)
  have l1: "listen_result demo_settings (listen_events ?e 0) = Some ?d" by code_simp
  have l2: "listen_result demo_settings (listen_events ?e' 0) = Some ?w" by code_simp
  have l3: "\<forall>n. n \<noteq> 0 \<longrightarrow> listen_events ?e' n = listen_events ?e n"
    by (simp add: demo_env_def heard_def)
  have r: "fst (get_customer_order_simple demo_settings ?e' initial_state)
     = Inr \<lparr>full_order_text = Some ''Zinger burger'', selected_offer = Some 2,
              order_phrases = [''Zinger burger''], car_number = Some 1,
              order_id = Some ''Car 1'', cancelled = False\<rparr>"
    by code_simp
  from code_equivalence [OF c refl refl h1 h2 _ l1 l2 l3, of initial_state] h1 h2 h3 r
  show ?thesis by blast
qed

section \<open>The optional post-processor\<close>

lemma ollama_text:
  "fst (process_order_with_ollama s e t st) = t \<or> fst (process_order_with_ollama s e t st) \<noteq> []"
  by (simp add: process_order_with_ollama_def Let_def split: ollama_reply.splits)

lemma ollama_final_nonempty [simp]:
  "t \<noteq> [] \<Longrightarrow> fst (process_order_with_ollama s e t st) \<noteq> []"
  using ollama_text [of s e t st] by auto

lemma ollama_state [simp]:
  "(snd (process_order_with_ollama s e t st))\<lparr>ollama_calls := n\<rparr> = st\<lparr>ollama_calls := n\<rparr>"
  by (simp add: process_order_with_ollama_def Let_def split: ollama_reply.splits)

lemma transcribe_ollama [simp]:
  "transcribe (s\<lparr>use_ollama := u, ollama_client := c\<rparr>) ev = transcribe s ev"
  by (cases ev) (simp_all add: transcribe_def)

lemma listen_result_ollama [simp]:
  "listen_result (s\<lparr>use_ollama := u, ollama_client := c\<rparr>) ev = listen_result s ev"
  by (simp add: listen_result_def)

lemma continuous_loop_ollama [simp]:
  "continuous_loop (s\<lparr>use_ollama := u, ollama_client := c\<rparr>) k ps evs = continuous_loop s k ps evs"
  by (induction evs arbitrary: k ps) (simp_all split: sum.splits sr_error.splits)

lemma format_order_truthy [simp]:
  "(fst (format_order s e t st) = []) = (t = [])"
  by (auto simp: format_order_def split_beta)

lemma format_order_state [simp]:
  "(snd (format_order s e t st))\<lparr>ollama_calls := n\<rparr> = st\<lparr>ollama_calls := n\<rparr>"
  by (simp add: format_order_def split_beta)

lemma confirm_readback_ollama [simp]:
  "confirm_readback (s\<lparr>use_ollama := u, ollama_client := c\<rparr>) (e\<lparr>ollama_replies := rs\<rparr>) t st
     = confirm_readback s e t st"
  by (simp add: confirm_readback_def listen_eq)

lemma listen_continuous_ollama [simp]:
  "listen_continuous (s\<lparr>use_ollama := u, ollama_client := c\<rparr>) (e\<lparr>ollama_replies := rs\<rparr>) st
     = listen_continuous s e st"
  by (simp add: listen_continuous_def)

lemma continuous_compare:
  fixes s e st u c rs
  defines "A \<equiv> get_customer_order_continuous s e st"
    and "B \<equiv> get_customer_order_continuous (s\<lparr>use_ollama := u, ollama_client := c\<rparr>)
               (e\<lparr>ollama_replies := rs\<rparr>) st"
  shows "(fst B)\<lparr>full_order_text := None\<rparr> = (fst A)\<lparr>full_order_text := None\<rparr>"
    and "truthy (full_order_text (fst B)) = truthy (full_order_text (fst A))"
    and "(snd B)\<lparr>ollama_calls := 0\<rparr> = (snd A)\<lparr>ollama_calls := 0\<rparr>"
  unfolding A_def B_def get_customer_order_continuous_def Let_def
  by (simp_all add: split_beta truthy_def)

lemma handoff_compare:
  assumes "truthy x = truthy (full_order_text od)"
  shows "session_without_text
           (handoff_to_operator (s\<lparr>use_ollama := u, ollama_client := c\<rparr>) (e\<lparr>ollama_replies := rs\<rparr>)
              cid (od\<lparr>full_order_text := x\<rparr>) (st\<lparr>ollama_calls := n\<rparr>))
       = session_without_text (handoff_to_operator s e cid od st)"
  using assms
  by (simp add: handoff_to_operator_def Let_def session_without_text_def without_text_def speak_def)

lemma announce_offers_ollama [simp]:
  "announce_offers (s\<lparr>use_ollama := u, ollama_client := c\<rparr>) st = announce_offers s st"
  by (simp add: announce_offers_def)

lemma process_customer_continuous:
  assumes "\<not> simple_flow s" "use_continuous_listening s"
  shows "process_customer s e st =
     (let cid = ''CUST_'' @ clock e (clock_reads st);
          st2 = announce_offers s (st\<lparr>clock_reads := Suc (clock_reads st),
                   self_current_customer := Some cid,
                   new_customers := new_customers st @ [cid]\<rparr>);
          g = get_customer_order_continuous s e st2
      in case handoff_to_operator s e cid (fst g) (snd g) of
           (Inl err, st4) \<Rightarrow> (Inl err, st4)
         | (Inr info, st4) \<Rightarrow> (Inr info, st4\<lparr>self_current_customer := None\<rparr>))"
  using assms by (simp add: process_customer_def Let_def split_beta)

lemma session_without_text_finish:
  "session_without_text
     (case p of (Inl err, st4) \<Rightarrow> (Inl err, st4)
      | (Inr info, st4) \<Rightarrow> (Inr info, st4\<lparr>self_current_customer := None\<rparr>))
   = (case session_without_text p of (Inl err, st4) \<Rightarrow> (Inl err, st4)
      | (Inr info, st4) \<Rightarrow> (Inr info, st4\<lparr>self_current_customer := None\<rparr>))"
  by (cases p; cases "fst p") (auto simp: session_without_text_def)

text \<open>C8: the post-processor returns the order text itself when the service raises or is
  not connected, and otherwise the order text or the non-empty stripped reply; and a session
  of the continuous flow gives the same hand-off record, the same queue, the same spoken
  texts and the same state, the order text apart, whatever the post-processor does and
  whether it is enabled or not.\<close>

theorem post_processor_transparent:
  assumes "\<not> simple_flow s" and "use_continuous_listening s"
  shows "(ollama_replies e (ollama_calls st) = ReplyRaises \<or> \<not> ollama_client s \<longrightarrow>
            fst (process_order_with_ollama s e order_text st) = order_text)
       \<and> (fst (process_order_with_ollama s e order_text st) = order_text
          \<or> fst (process_order_with_ollama s e order_text st) \<noteq> []
            \<and> (\<exists>v. (ollama_replies e (ollama_calls st) = ReplyDict (Some v)
                     \<or> ollama_replies e (ollama_calls st) = ReplyOther v)
                  \<and> fst (process_order_with_ollama s e order_text st) = strip v))
       \<and> session_without_text
            (process_customer (s\<lparr>use_ollama := u, ollama_client := c\<rparr>) (e\<lparr>ollama_replies := rs\<rparr>) st)
          = session_without_text (process_customer s e st)"
proof (intro conjI)
  show "ollama_replies e (ollama_calls st) = ReplyRaises \<or> \<not> ollama_client s \<longrightarrow>
            fst (process_order_with_ollama s e order_text st) = order_text"
    by (auto simp: process_order_with_ollama_def Let_def)
  show "fst (process_order_with_ollama s e order_text st) = order_text
          \<or> fst (process_order_with_ollama s e order_text st) \<noteq> []
            \<and> (\<exists>v. (ollama_replies e (ollama_calls st) = ReplyDict (Some v)
                     \<or> ollama_replies e (ollama_calls st) = ReplyOther v)
                  \<and> fst (process_order_with_ollama s e order_text st) = strip v)"
    by (cases "ollama_replies e (ollama_calls st)")
       (auto simp: process_order_with_ollama_def Let_def split: option.splits)
  let ?s' = "s\<lparr>use_ollama := u, ollama_client := c\<rparr>" and ?e' = "e\<lparr>ollama_replies := rs\<rparr>"
  define cid where "cid = ''CUST_'' @ clock e (clock_reads st)"
  define st2 where "st2 = announce_offers s (st\<lparr>clock_reads := Suc (clock_reads st),
                   self_current_customer := Some cid,
                   new_customers := new_customers st @ [cid]\<rparr>)"
  define A where "A = get_customer_order_continuous s e st2"
  define B where "B = get_customer_order_continuous ?s' ?e' st2"
  note cmp = continuous_compare [where s=s and u=u and c=c and e=e and rs=rs and st=st2, folded A_def B_def]
  have fb: "fst B = (fst A)\<lparr>full_order_text := full_order_text (fst B)\<rparr>"
    using cmp(1) by (metis order_data.surjective order_data.update_convs(1))
  have sb: "snd B = (snd A)\<lparr>ollama_calls := ollama_calls (snd B)\<rparr>"
    using cmp(3) by (metis state.surjective state.update_convs(10))
  have h: "session_without_text (handoff_to_operator ?s' ?e' cid (fst B) (snd B))
         = session_without_text (handoff_to_operator s e cid (fst A) (snd A))"
    using handoff_compare [OF cmp(2), where s=s and u=u and c=c and e=e and rs=rs and cid=cid
        and st="snd A" and n="ollama_calls (snd B)"] fb sb
    by simp
  have a: "process_customer s e st =
      (case handoff_to_operator s e cid (fst A) (snd A) of
           (Inl err, st4) \<Rightarrow> (Inl err, st4)
         | (Inr info, st4) \<Rightarrow> (Inr info, st4\<lparr>self_current_customer := None\<rparr>))"
    using process_customer_continuous [OF assms, of e st]
    by (simp add: Let_def cid_def st2_def A_def)
  have b: "process_customer ?s' ?e' st =
      (case handoff_to_operator ?s' ?e' cid (fst B) (snd B) of
           (Inl err, st4) \<Rightarrow> (Inl err, st4)
         | (Inr info, st4) \<Rightarrow> (Inr info, st4\<lparr>self_current_customer := None\<rparr>))"
    using process_customer_continuous [of ?s' ?e' st] assms
    by (simp add: Let_def cid_def st2_def B_def)
  show "session_without_text (process_customer ?s' ?e' st)
          = session_without_text (process_customer s e st)"
    unfolding a b session_without_text_finish h ..
qed

theorem post_processor_transparent_witness:
  "\<not> simple_flow continuous_settings \<and> use_continuous_listening continuous_settings
   \<and> ollama_replies (ordering_env ReplyRaises) (ollama_calls initial_state) = ReplyRaises
   \<and> fst (process_order_with_ollama continuous_settings (ordering_env ReplyRaises)
            ''Two zinger burgers'' initial_state) = ''Two zinger burgers''
   \<and> session_without_text
        (process_customer (continuous_settings\<lparr>use_ollama := False, ollama_client := False\<rparr>)
           ((ordering_env (ReplyDict (Some '' 2 x Zinger burger, 1 x cola '')))
              \<lparr>ollama_replies := (\<lambda>n. ReplyRaises)\<rparr>) initial_state)
      = session_without_text
          (process_customer continuous_settings
             (ordering_env (ReplyDict (Some '' 2 x Zinger burger, 1 x cola ''))) initial_state)
   \<and> (case fst (process_customer continuous_settings
             (ordering_env (ReplyDict (Some '' 2 x Zinger burger, 1 x cola ''))) initial_state) of
         Inr (ReadyForOperator r) \<Rightarrow>
           h_full_order_text r = Some ''2 x Zinger burger, 1 x cola''
       | _ \<Rightarrow> False)"
proof -
  have h1: "\<not> simple_flow continuous_settings"
    by (simp add: continuous_settings_def demo_settings_def)
  have h2: "use_continuous_listening continuous_settings"
    by (simp add: continuous_settings_def demo_settings_def)
  have h3: "ollama_replies (ordering_env ReplyRaises) (ollama_calls initial_state) = ReplyRaises"
    by (simp add: ordering_env_def)
  have v: "(case fst (process_customer continuous_settings
             (ordering_env (ReplyDict (Some '' 2 x Zinger burger, 1 x cola ''))) initial_state) of
         Inr (ReadyForOperator r) \<Rightarrow>
           h_full_order_text r = Some ''2 x Zinger burger, 1 x cola''
       | _ \<Rightarrow> False)"
    by code_simp
  note a = post_processor_transparent [OF h1 h2, of "ordering_env ReplyRaises" initial_state
      "''Two zinger burgers''"]
  note b = post_processor_transparent [OF h1 h2,
      of "ordering_env (ReplyDict (Some '' 2 x Zinger burger, 1 x cola ''))" initial_state
         "''Two zinger burgers''" False False "\<lambda>n. ReplyRaises"]
  from a h3 have "fst (process_order_with_ollama continuous_settings (ordering_env ReplyRaises)
            ''Two zinger burgers'' initial_state) = ''Two zinger burgers''"
    by blast
  with b h1 h2 h3 v show ?thesis by blast
qed

end
